theory Spec2Isabelle
  imports Main
begin

section \<open>Data model (types.ts)\<close>

text \<open>
  The prop lineage engine of propflow: the component extractor of
  \<^verbatim>\<open>astAnalyzer.ts\<close> and the graph builder of \<^verbatim>\<open>graphBuilder.ts\<close>.
  Strings are held as their UTF-8 bytes: a character outside ASCII is the sequence of its
  bytes. Line numbers are JavaScript numbers that only ever hold integers here, so they
  are \<^typ>\<open>int\<close>.
\<close>

record ComponentInfo =
  name :: string
  filePath :: string
  props :: "string list"
  line :: int

datatype NodeType = DEFINITION | USAGE | SOURCE

text \<open>
  A \<^verbatim>\<open>PropNode\<close> is a mutable object: the builder writes its \<^verbatim>\<open>type\<close> and
  \<^verbatim>\<open>parent\<close> fields after it has been pushed onto the chain, and \<^verbatim>\<open>parent\<close>
  holds a reference to another node. Nodes therefore live in a store, a list indexed by
  address, and a reference is an address.
\<close>

type_synonym addr = nat

record PropTrace =
  propName :: string
  chain :: "addr list"
  isComplete :: bool
  ambiguous :: bool

record PropNode =
  componentName :: string
  filePath :: string
  propName :: string
  lineCode :: int
  type :: NodeType
  parent :: "addr option"

type_synonym store = "PropNode list"

definition setType :: "store \<Rightarrow> addr \<Rightarrow> NodeType \<Rightarrow> store" where
  "setType h a t = h[a := (h ! a)\<lparr>type := t\<rparr>]"

definition setParent :: "store \<Rightarrow> addr \<Rightarrow> addr option \<Rightarrow> store" where
  "setParent h a p = h[a := (h ! a)\<lparr>parent := p\<rparr>]"

section \<open>Syntax trees as the analyzer reads them (ts-morph)\<close>

text \<open>
  The parser is a library; the model holds what the analyzer reads off a parsed file.
  A string literal initializer carries its source text, quotes included; a brace-wrapped
  expression carries the text of the inner expression, absent for \<^verbatim>\<open>{}\<close>.
\<close>

datatype JsxInitializer =
    StringLiteral string
  | JsxExpression "string option"
  | OtherInitializer

datatype JsxAttributeLike =
    JsxAttribute string "JsxInitializer option" int
  | JsxSpreadAttribute

datatype JsxKind = JsxOpeningElement | JsxSelfClosingElement

record JsxElement =
  kind :: JsxKind
  tagName :: string
  startLine :: int
  attributes :: "JsxAttributeLike list"

text \<open>
  Prop names come out of the type resolution rules of the analyzer
  (\<^verbatim>\<open>extractPropsFromParameter\<close>, \<^verbatim>\<open>resolveTypeToProps\<close>), which nothing below
  looks into: a function-like node carries the names its first parameter yields
  (empty when it has no parameter), a variable declaration the names its type annotation
  yields, and a file the member names of each of its named types.
\<close>

record FunctionDeclaration =
  functionName :: "string option"
  parameterProps :: "string list"
  functionStartLine :: int
  functionKeywordLine :: "int option"

datatype Callee =
    Identifier string
  | PropertyAccessExpression string string
  | OtherCallee

datatype Expression =
    ArrowFunction "string list"
  | FunctionExpression "string list"
  | CallExpression Callee "Expression list"
  | OtherExpression

record VariableDeclaration =
  variableName :: string
  initializer :: "Expression option"
  typeAnnotationProps :: "string list"
  declarationStartLine :: int
  variableStatementLine :: "int option"

text \<open>
  \<^verbatim>\<open>jsxElements\<close> lists the opening and self-closing elements of the file in document
  order. \<^verbatim>\<open>reExported\<close> is what \<^verbatim>\<open>findReExportedComponents\<close> yields for the file;
  it follows export declarations into other modules through the file system.
\<close>

record SourceFile =
  getFunctions :: "FunctionDeclaration list"
  getVariableDeclarations :: "VariableDeclaration list"
  reExported :: "ComponentInfo list"
  typeMembers :: "string \<Rightarrow> string list"
  jsxElements :: "JsxElement list"

text \<open>
  The editor workspace and the disk: \<^verbatim>\<open>findFiles\<close> is the result of the workspace file
  search (at most 200 paths, none under node_modules), \<^verbatim>\<open>openTextDocument\<close> the text
  of a document (absent when it cannot be read), \<^verbatim>\<open>project\<close> the parsed file at a
  path (absent when the file cannot be loaded, where ts-morph throws).
  \<^verbatim>\<open>regExpExec\<close> is the regular expression engine of the JavaScript runtime: for the
  source of a pattern and a text, the offsets into the text at which the loop over
  \<^verbatim>\<open>exec\<close> of the global pattern finds its matches, none when the pattern does not
  compile (the constructor throws inside the \<^verbatim>\<open>try\<close> of the file). That loop ends
  whenever the pattern cannot match the empty string; the patterns built here end with a
  character class, so only a name containing \<^verbatim>\<open>|\<close>, which no identifier does, could
  keep it from ending, and the field describes the searches that end.
\<close>

record Workspace =
  findFiles :: "string list"
  openTextDocument :: "string \<Rightarrow> string option"
  project :: "string \<Rightarrow> SourceFile option"
  regExpExec :: "string \<Rightarrow> string \<Rightarrow> nat list"

datatype error = FileNotFound string

section \<open>astAnalyzer.ts\<close>

definition isUpper :: "char \<Rightarrow> bool" where
  "isUpper c = (let n = (of_char c :: nat) in 65 \<le> n \<and> n \<le> 90)"

definition isDigit :: "char \<Rightarrow> bool" where
  "isDigit c = (let n = (of_char c :: nat) in 48 \<le> n \<and> n \<le> 57)"

definition isWordChar :: "char \<Rightarrow> bool" where
  "isWordChar c = (let n = (of_char c :: nat) in
     (65 \<le> n \<and> n \<le> 90) \<or> (97 \<le> n \<and> n \<le> 122) \<or> (48 \<le> n \<and> n \<le> 57) \<or> n = 95)"

text \<open>
  The class \<^verbatim>\<open>\s\<close> of JavaScript: tab to carriage return, space, U+00A0, U+1680,
  U+2000 to U+200A, U+2028, U+2029, U+202F, U+205F, U+3000 and U+FEFF.
  \<^verbatim>\<open>whitespaceLength\<close> is the number of bytes of such a character at the head of a
  string, 0 when the string does not start with one.
\<close>

definition whitespaceLength :: "string \<Rightarrow> nat" where
  "whitespaceLength s =
     (case map of_char (take 3 s) :: nat list of
        [] \<Rightarrow> 0
      | b0 # bs \<Rightarrow>
          if b0 = 32 \<or> (9 \<le> b0 \<and> b0 \<le> 13) then 1
          else (case bs of
                  [] \<Rightarrow> 0
                | b1 # bs' \<Rightarrow>
                    if b0 = 194 \<and> b1 = 160 then 2
                    else (case bs' of
                            [] \<Rightarrow> 0
                          | b2 # _ \<Rightarrow>
                              if (b0 = 225 \<and> b1 = 154 \<and> b2 = 128)
                                 \<or> (b0 = 226 \<and> b1 = 128 \<and>
                                     ((128 \<le> b2 \<and> b2 \<le> 138) \<or> b2 = 168 \<or> b2 = 169
                                      \<or> b2 = 175))
                                 \<or> (b0 = 226 \<and> b1 = 129 \<and> b2 = 159)
                                 \<or> (b0 = 227 \<and> b1 = 128 \<and> b2 = 128)
                                 \<or> (b0 = 239 \<and> b1 = 187 \<and> b2 = 191)
                              then 3 else 0)))"

text \<open>\<^verbatim>\<open>\s*\<close>: what is left of a string after the whitespace at its head.\<close>

fun skipWhitespace :: "string \<Rightarrow> string" where
  "skipWhitespace [] = []"
| "skipWhitespace (c # cs) =
     (if whitespaceLength (c # cs) = 0 then c # cs
      else skipWhitespace (drop (whitespaceLength (c # cs) - 1) cs))"

text \<open>\<^verbatim>\<open>/^[A-Z]/.test(name)\<close>\<close>

definition startsUpper :: "string \<Rightarrow> bool" where
  "startsUpper s = (case s of [] \<Rightarrow> False | c # _ \<Rightarrow> isUpper c)"

definition endsWith :: "string \<Rightarrow> string \<Rightarrow> bool" where
  "endsWith s suffix = (length suffix \<le> length s \<and> drop (length s - length suffix) s = suffix)"

definition extractPropsFromTypeDefinition :: "SourceFile \<Rightarrow> string \<Rightarrow> string list" where
  "extractPropsFromTypeDefinition sourceFile cn = typeMembers sourceFile (cn @ ''Props'')"

definition extractComponentFromFunction ::
  "SourceFile \<Rightarrow> FunctionDeclaration \<Rightarrow> string \<Rightarrow> ComponentInfo option" where
  "extractComponentFromFunction sourceFile func fp =
     (case functionName func of
        None \<Rightarrow> None
      | Some n \<Rightarrow>
          if n = [] then None
          else if \<not> startsUpper n then None
          else
            let ps = parameterProps func;
                ps' = (if ps = [] then extractPropsFromTypeDefinition sourceFile n else ps);
                l = (case functionKeywordLine func of
                       Some k \<Rightarrow> k
                     | None \<Rightarrow> functionStartLine func)
            in Some \<lparr>name = n, ComponentInfo.filePath = fp, props = ps', line = l\<rparr>)"

definition wrapperFunctions :: "string list" where
  "wrapperFunctions =
     [''memo'', ''forwardRef'', ''React.memo'', ''React.forwardRef'', ''observer'', ''connect'']"

definition declarationLine :: "VariableDeclaration \<Rightarrow> int" where
  "declarationLine varDecl =
     (case variableStatementLine varDecl of
        Some l \<Rightarrow> l
      | None \<Rightarrow> declarationStartLine varDecl)"

definition calleeName :: "Callee \<Rightarrow> string" where
  "calleeName expression =
     (case expression of
        Identifier t \<Rightarrow> t
      | PropertyAccessExpression e n \<Rightarrow> e @ ''.'' @ n
      | OtherCallee \<Rightarrow> [])"

definition wrappedComponent ::
  "SourceFile \<Rightarrow> VariableDeclaration \<Rightarrow> string \<Rightarrow> string list \<Rightarrow> ComponentInfo" where
  "wrappedComponent sourceFile varDecl fp ps =
     \<lparr>name = variableName varDecl, ComponentInfo.filePath = fp,
      props = (if ps = [] then extractPropsFromTypeDefinition sourceFile (variableName varDecl)
               else ps),
      line = declarationLine varDecl\<rparr>"

definition extractComponentFromVariable ::
  "SourceFile \<Rightarrow> VariableDeclaration \<Rightarrow> string \<Rightarrow> ComponentInfo option" where
  "extractComponentFromVariable sourceFile varDecl fp =
     (let n = variableName varDecl in
      if \<not> startsUpper n then None
      else case initializer varDecl of
        None \<Rightarrow> None
      | Some (ArrowFunction ps) \<Rightarrow>
          let ps1 = (if ps = [] then typeAnnotationProps varDecl else ps);
              ps2 = (if ps1 = [] then extractPropsFromTypeDefinition sourceFile n else ps1)
          in Some \<lparr>name = n, ComponentInfo.filePath = fp, props = ps2,
                   line = declarationLine varDecl\<rparr>
      | Some (FunctionExpression ps) \<Rightarrow>
          let ps1 = (if ps = [] then typeAnnotationProps varDecl else ps);
              ps2 = (if ps1 = [] then extractPropsFromTypeDefinition sourceFile n else ps1)
          in Some \<lparr>name = n, ComponentInfo.filePath = fp, props = ps2,
                   line = declarationLine varDecl\<rparr>
      | Some (CallExpression expression args) \<Rightarrow>
          let funcName = calleeName expression in
          if list_ex (\<lambda>wrapper. endsWith funcName wrapper) wrapperFunctions then
            (case args of
               [] \<Rightarrow> None
             | ArrowFunction ps # _ \<Rightarrow> Some (wrappedComponent sourceFile varDecl fp ps)
             | FunctionExpression ps # _ \<Rightarrow> Some (wrappedComponent sourceFile varDecl fp ps)
             | _ \<Rightarrow> None)
          else None
      | Some OtherExpression \<Rightarrow> None)"

text \<open>
  \<^verbatim>\<open>analyzeFile\<close> without in-memory text: the file is loaded or refreshed from disk,
  which throws when it is not there.
\<close>

definition analyzeFile :: "Workspace \<Rightarrow> string \<Rightarrow> error + ComponentInfo list" where
  "analyzeFile ws fp =
     (case project ws fp of
        None \<Rightarrow> Inl (FileNotFound fp)
      | Some sourceFile \<Rightarrow>
          Inr (List.map_filter (\<lambda>func. extractComponentFromFunction sourceFile func fp)
                 (getFunctions sourceFile)
               @ List.map_filter (\<lambda>varDecl. extractComponentFromVariable sourceFile varDecl fp)
                   (getVariableDeclarations sourceFile)
               @ reExported sourceFile))"

record PropUsage =
  line :: int
  "value" :: "string option"

definition spreadSentinel :: string where
  "spreadSentinel = ''{...spread}''"

text \<open>The attribute loop shared by \<^verbatim>\<open>findPropUsage\<close> and \<^verbatim>\<open>findPropUsageAtLocation\<close>.\<close>

fun scanAttributes :: "string \<Rightarrow> JsxAttributeLike list \<Rightarrow> PropUsage option" where
  "scanAttributes pn [] = None"
| "scanAttributes pn (JsxSpreadAttribute # attrs) = scanAttributes pn attrs"
| "scanAttributes pn (JsxAttribute attrName ini l # attrs) =
     (if attrName = pn then
        (case ini of
           None \<Rightarrow> Some \<lparr>PropUsage.line = l, value = Some ''true''\<rparr>
         | Some (StringLiteral t) \<Rightarrow> Some \<lparr>PropUsage.line = l, value = Some t\<rparr>
         | Some (JsxExpression e) \<Rightarrow> Some \<lparr>PropUsage.line = l, value = e\<rparr>
         | Some OtherInitializer \<Rightarrow> scanAttributes pn attrs)
      else scanAttributes pn attrs)"

definition hasSpread :: "JsxAttributeLike list \<Rightarrow> bool" where
  "hasSpread attrs = list_ex (\<lambda>attr. attr = JsxSpreadAttribute) attrs"

definition elementUsage :: "string \<Rightarrow> JsxElement \<Rightarrow> int \<Rightarrow> PropUsage option" where
  "elementUsage pn element spreadLine =
     (case scanAttributes pn (attributes element) of
        Some u \<Rightarrow> Some u
      | None \<Rightarrow>
          if hasSpread (attributes element)
          then Some \<lparr>PropUsage.line = spreadLine, value = Some spreadSentinel\<rparr>
          else None)"

definition openingElements :: "SourceFile \<Rightarrow> JsxElement list" where
  "openingElements sourceFile = filter (\<lambda>e. kind e = JsxOpeningElement) (jsxElements sourceFile)"

definition selfClosingElements :: "SourceFile \<Rightarrow> JsxElement list" where
  "selfClosingElements sourceFile =
     filter (\<lambda>e. kind e = JsxSelfClosingElement) (jsxElements sourceFile)"

fun closest :: "int \<Rightarrow> JsxElement \<Rightarrow> JsxElement list \<Rightarrow> JsxElement" where
  "closest nearLine closestMatch [] = closestMatch"
| "closest nearLine closestMatch (m # ms) =
     (if \<bar>startLine m - nearLine\<bar> < \<bar>startLine closestMatch - nearLine\<bar>
      then closest nearLine m ms
      else closest nearLine closestMatch ms)"

definition findPropUsageAtLocation ::
  "SourceFile \<Rightarrow> string \<Rightarrow> string \<Rightarrow> int \<Rightarrow> PropUsage option" where
  "findPropUsageAtLocation sourceFile cn pn nearLine =
     (let allElements = openingElements sourceFile @ selfClosingElements sourceFile;
          matchingComponents = filter (\<lambda>e. tagName e = cn) allElements
      in case matchingComponents of
           [] \<Rightarrow> None
         | m # _ \<Rightarrow>
             let closestMatch = closest nearLine m matchingComponents
             in elementUsage pn closestMatch (startLine closestMatch))"

fun findPropUsageLoop :: "string \<Rightarrow> string \<Rightarrow> JsxElement list \<Rightarrow> PropUsage option" where
  "findPropUsageLoop cn pn [] = None"
| "findPropUsageLoop cn pn (element # elements) =
     (if tagName element = cn then
        (case elementUsage pn element (startLine element) of
           Some u \<Rightarrow> Some u
         | None \<Rightarrow> findPropUsageLoop cn pn elements)
      else findPropUsageLoop cn pn elements)"

definition findPropUsage :: "SourceFile \<Rightarrow> string \<Rightarrow> string \<Rightarrow> PropUsage option" where
  "findPropUsage sourceFile cn pn = findPropUsageLoop cn pn (openingElements sourceFile)"

section \<open>graphBuilder.ts\<close>

record GraphBuilder =
  maxDepth :: nat

text \<open>The constructor: \<^verbatim>\<open>private maxDepth = 20\<close>.\<close>

definition newGraphBuilder :: GraphBuilder where
  "newGraphBuilder = \<lparr>maxDepth = 20\<rparr>"

record Location =
  fsPath :: string
  startLine0 :: int

text \<open>
  The text search \<^verbatim>\<open>new RegExp(`<${componentName}[\\s\\/>]`, "g")\<close>. The name goes
  into the pattern unescaped. When it is made of letters, digits and underscores only,
  the pattern has no operator but the final class, and its matches are the offsets where
  \<^verbatim>\<open><\<close>, the name and one of whitespace, \<^verbatim>\<open>/\<close> or \<^verbatim>\<open>>\<close> follow each other
  (\<^verbatim>\<open>jsxLiteralExec\<close>; two matches never overlap). For any other name the matches are
  those of the engine on the pattern source (\<^verbatim>\<open>jsxPatternSource\<close>).
  \<^verbatim>\<open>positionAt\<close> counts the line breaks before an offset.
\<close>

definition isTagBoundary :: "string \<Rightarrow> bool" where
  "isTagBoundary s =
     (case s of
        [] \<Rightarrow> False
      | b # _ \<Rightarrow> 0 < whitespaceLength s \<or> b = CHR ''/'' \<or> b = CHR ''>'')"

fun jsxLiteralExec :: "string \<Rightarrow> string \<Rightarrow> nat \<Rightarrow> nat list" where
  "jsxLiteralExec cn [] i = []"
| "jsxLiteralExec cn (c # cs) i =
     (if c = CHR ''<'' \<and> take (length cn) cs = cn \<and> isTagBoundary (drop (length cn) cs)
      then i # jsxLiteralExec cn cs (i + 1)
      else jsxLiteralExec cn cs (i + 1))"

definition jsxPatternSource :: "string \<Rightarrow> string" where
  "jsxPatternSource cn =
     ''<'' @ cn @ [CHR ''['', CHR 0x5C, CHR ''s'', CHR 0x5C, CHR ''/'', CHR ''>'', CHR '']'']"

definition jsxRegexExec :: "Workspace \<Rightarrow> string \<Rightarrow> string \<Rightarrow> nat list" where
  "jsxRegexExec ws cn text =
     (if list_all isWordChar cn then jsxLiteralExec cn text 0
      else regExpExec ws (jsxPatternSource cn) text)"

definition positionAtLine :: "string \<Rightarrow> nat \<Rightarrow> int" where
  "positionAtLine text i = int (length (filter (\<lambda>c. c = CHR 0x0A) (take i text)))"

definition findComponentUsagesInWorkspace :: "Workspace \<Rightarrow> string \<Rightarrow> Location list" where
  "findComponentUsagesInWorkspace ws cn =
     concat (map (\<lambda>file.
        case openTextDocument ws file of
          None \<Rightarrow> []
        | Some text \<Rightarrow>
            map (\<lambda>i. \<lparr>fsPath = file, startLine0 = positionAtLine text i\<rparr>)
              (jsxRegexExec ws cn text))
       (findFiles ws))"

text \<open>The first component among those declared closest before the line.\<close>

fun closestComponentLoop ::
  "int \<Rightarrow> (string \<times> int) option \<Rightarrow> ComponentInfo list \<Rightarrow> (string \<times> int) option" where
  "closestComponentLoop l closestComponent [] = closestComponent"
| "closestComponentLoop l closestComponent (component # components) =
     (if ComponentInfo.line component \<le> l then
        (case closestComponent of
           None \<Rightarrow> closestComponentLoop l (Some (name component, ComponentInfo.line component)) components
         | Some (n, cl) \<Rightarrow>
             if ComponentInfo.line component > cl
             then closestComponentLoop l (Some (name component, ComponentInfo.line component)) components
             else closestComponentLoop l closestComponent components)
      else closestComponentLoop l closestComponent components)"

definition findComponentAtLine :: "Workspace \<Rightarrow> string \<Rightarrow> int \<Rightarrow> error + (string \<times> int) option" where
  "findComponentAtLine ws fp l =
     (case analyzeFile ws fp of
        Inl e \<Rightarrow> Inl e
      | Inr components \<Rightarrow> Inr (closestComponentLoop l None components))"

text \<open>\<^verbatim>\<open>value.match(/^{?\s*(\w+)\s*}?$/)\<close>: the captured word, when the value matches.\<close>

definition matchIdentifier :: "string \<Rightarrow> string option" where
  "matchIdentifier v =
     (let s1 = (case v of c # cs \<Rightarrow> if c = CHR ''{'' then cs else v | [] \<Rightarrow> v);
          s2 = skipWhitespace s1;
          w = takeWhile isWordChar s2;
          s3 = skipWhitespace (dropWhile isWordChar s2);
          s4 = (case s3 of c # cs \<Rightarrow> if c = CHR ''}'' then cs else s3 | [] \<Rightarrow> s3)
      in if w \<noteq> [] \<and> s4 = [] then Some w else None)"

text \<open>\<^verbatim>\<open>value.match(/props\.(\w+)/)\<close>: the word captured by the leftmost match.\<close>

fun matchPropsAccess :: "string \<Rightarrow> string option" where
  "matchPropsAccess [] = None"
| "matchPropsAccess (c # cs) =
     (if take 6 (c # cs) = ''props.'' \<and> takeWhile isWordChar (drop 6 (c # cs)) \<noteq> []
      then Some (takeWhile isWordChar (drop 6 (c # cs)))
      else matchPropsAccess cs)"

definition extractPropName :: "string option \<Rightarrow> string" where
  "extractPropName v =
     (case v of
        None \<Rightarrow> ''unknown''
      | Some s \<Rightarrow>
          (if s = [] then ''unknown''
           else if s = spreadSentinel then spreadSentinel
           else (case matchIdentifier s of
                   Some m \<Rightarrow> m
                 | None \<Rightarrow> (case matchPropsAccess s of
                              Some m \<Rightarrow> m
                            | None \<Rightarrow> s))))"

definition determineNodeType :: "string option \<Rightarrow> NodeType" where
  "determineNodeType v =
     (case v of
        None \<Rightarrow> SOURCE
      | Some s \<Rightarrow>
          if s = [] then SOURCE
          else if hd s = CHR 0x22 \<or> hd s = CHR 0x27 \<or> s = ''true'' \<or> s = ''false''
                  \<or> list_all isDigit s
          then SOURCE
          else USAGE)"

text \<open>
  \<^verbatim>\<open>analyzeLocationForPropUsage\<close>: every exception inside is caught and turned into
  \<^verbatim>\<open>null\<close>.
\<close>

definition analyzeLocationForPropUsage :: "Workspace \<Rightarrow> Location \<Rightarrow> PropNode \<Rightarrow> PropNode option" where
  "analyzeLocationForPropUsage ws location node =
     (let refFilePath = fsPath location in
      case project ws refFilePath of
        None \<Rightarrow> None
      | Some sourceFile \<Rightarrow>
          (case findPropUsageAtLocation sourceFile (componentName node) (PropNode.propName node)
                  (startLine0 location + 1) of
             None \<Rightarrow> None
           | Some propUsage \<Rightarrow>
               (case findComponentAtLine ws refFilePath (PropUsage.line propUsage) of
                  Inl e \<Rightarrow> None
                | Inr None \<Rightarrow> None
                | Inr (Some (parentName, parentLine)) \<Rightarrow>
                    Some \<lparr>componentName = parentName,
                          filePath = refFilePath,
                          propName = extractPropName (value propUsage),
                          lineCode = PropUsage.line propUsage,
                          type = determineNodeType (value propUsage),
                          parent = None\<rparr>)))"

fun findParentLoop :: "Workspace \<Rightarrow> PropNode \<Rightarrow> Location list \<Rightarrow> PropNode option" where
  "findParentLoop ws node [] = None"
| "findParentLoop ws node (location # usages) =
     (if fsPath location = filePath node then findParentLoop ws node usages
      else (case analyzeLocationForPropUsage ws location node of
              Some parentNode \<Rightarrow> Some parentNode
            | None \<Rightarrow> findParentLoop ws node usages))"

definition findParentNode :: "Workspace \<Rightarrow> PropNode \<Rightarrow> PropNode option" where
  "findParentNode ws node =
     (let usages = findComponentUsagesInWorkspace ws (componentName node) in
      if usages = [] then None else findParentLoop ws node usages)"

text \<open>The variables of the \<^verbatim>\<open>while\<close> loop of \<^verbatim>\<open>buildPropChain\<close>, with the node store.\<close>

record TraceState =
  nodes :: store
  chainSoFar :: "addr list"
  currentNode :: addr
  depth :: nat
  ambiguousSoFar :: bool

text \<open>The branch \<^verbatim>\<open>if (!parentNode)\<close>: the last node pushed becomes SOURCE.\<close>

definition markSource :: "TraceState \<Rightarrow> TraceState" where
  "markSource s =
     (if chainSoFar s \<noteq> []
      then s\<lparr>nodes := setType (nodes s) (last (chainSoFar s)) SOURCE\<rparr>
      else s)"

text \<open>
  The rest of the loop body: the parent found is a fresh object, pushed onto the chain,
  stored in the \<^verbatim>\<open>parent\<close> field of the current node, and made the current node.
\<close>

definition advance :: "TraceState \<Rightarrow> PropNode \<Rightarrow> TraceState" where
  "advance s parentNode =
     (let a = length (nodes s) in
      s\<lparr>ambiguousSoFar := (if PropNode.propName parentNode = spreadSentinel then True
                            else ambiguousSoFar s),
        nodes := setParent (nodes s @ [parentNode]) (currentNode s) (Some a),
        chainSoFar := chainSoFar s @ [a],
        currentNode := a\<rparr>)"

function traceLoop :: "GraphBuilder \<Rightarrow> Workspace \<Rightarrow> TraceState \<Rightarrow> TraceState" where
  "traceLoop this ws s =
     (if depth s < maxDepth this then
        (case findParentNode ws (nodes s ! currentNode s) of
           None \<Rightarrow> markSource (s\<lparr>depth := depth s + 1\<rparr>)
         | Some parentNode \<Rightarrow> traceLoop this ws (advance (s\<lparr>depth := depth s + 1\<rparr>) parentNode))
      else s)"
  by pat_completeness auto
termination
  by (relation "measure (\<lambda>(this, ws, s). maxDepth this - depth s)") (auto simp: advance_def Let_def)

text \<open>The final pass over the reversed chain.\<close>

definition markChain :: "store \<Rightarrow> addr list \<Rightarrow> store" where
  "markChain h reversedChain =
     (if length reversedChain > 0 then
        (let h1 = setType h (reversedChain ! 0) SOURCE in
         if length reversedChain > 1 then
           (let h2 = setType h1 (reversedChain ! (length reversedChain - 1)) DEFINITION
            in fold (\<lambda>i h'. setType h' (reversedChain ! i) USAGE)
                 [1 ..< length reversedChain - 1] h2)
         else h1)
      else h)"

definition initialState :: "PropNode \<Rightarrow> TraceState" where
  "initialState node =
     \<lparr>nodes = [node], chainSoFar = [0], currentNode = 0, depth = 0, ambiguousSoFar = False\<rparr>"

definition finishTrace :: "GraphBuilder \<Rightarrow> string \<Rightarrow> TraceState \<Rightarrow> PropTrace \<times> store" where
  "finishTrace this pn s =
     (let complete = (if depth s \<ge> maxDepth this then False else True);
          reversedChain = rev (chainSoFar s)
      in (\<lparr>PropTrace.propName = pn, chain = reversedChain, isComplete = complete,
           ambiguous = ambiguousSoFar s\<rparr>,
          markChain (nodes s) reversedChain))"

text \<open>
  \<^verbatim>\<open>buildPropChain\<close> returns the trace and, with it, the store its chain points into.
  The call to \<^verbatim>\<open>analyzeFile\<close> at its start is outside any \<^verbatim>\<open>try\<close>.
\<close>

definition buildPropChain ::
  "GraphBuilder \<Rightarrow> Workspace \<Rightarrow> string \<Rightarrow> string \<Rightarrow> string \<Rightarrow> error + (PropTrace \<times> store)" where
  "buildPropChain this ws fp cn pn =
     (case analyzeFile ws fp of
        Inl e \<Rightarrow> Inl e
      | Inr components \<Rightarrow>
          let lc = (case find (\<lambda>c. name c = cn) components of
                      Some currentComponent \<Rightarrow> ComponentInfo.line currentComponent
                    | None \<Rightarrow> 0);
              node = \<lparr>componentName = cn, filePath = fp, propName = pn, lineCode = lc,
                      type = DEFINITION, parent = None\<rparr>
          in Inr (finishTrace this pn (traceLoop this ws (initialState node))))"

section \<open>Invariants of the traversal\<close>

text \<open>
  The store of a running trace is a linked list: the chain holds the addresses in
  allocation order, the current node is the last one allocated, and every node but the
  last points to the one allocated after it.
\<close>

definition linked :: "TraceState \<Rightarrow> bool" where
  "linked s =
     (0 < length (nodes s) \<and> chainSoFar s = [0 ..< length (nodes s)] \<and>
      currentNode s = length (nodes s) - 1 \<and>
      parent (nodes s ! (length (nodes s) - 1)) = None \<and>
      (\<forall>i. Suc i < length (nodes s) \<longrightarrow> parent (nodes s ! i) = Some (Suc i)))"

text \<open>The fields of a node that are never written after its creation.\<close>

definition dataOf :: "PropNode \<Rightarrow> string \<times> string \<times> string \<times> int" where
  "dataOf n = (componentName n, filePath n, PropNode.propName n, lineCode n)"

text \<open>The node \<^verbatim>\<open>buildPropChain\<close> creates for the requested component and prop.\<close>

definition requestedNode :: "Workspace \<Rightarrow> string \<Rightarrow> string \<Rightarrow> string \<Rightarrow> PropNode" where
  "requestedNode ws fp cn pn =
     \<lparr>componentName = cn, filePath = fp, propName = pn,
      lineCode = (case analyzeFile ws fp of
                    Inl e \<Rightarrow> 0
                  | Inr components \<Rightarrow>
                      (case find (\<lambda>c. name c = cn) components of
                         Some currentComponent \<Rightarrow> ComponentInfo.line currentComponent
                       | None \<Rightarrow> 0)),
      type = DEFINITION, parent = None\<rparr>"

text \<open>
  The names of the attributes of a tag, and the workspaces in which no attribute of any
  searched file is named like the spread sentinel (an attribute name is an identifier,
  possibly with hyphens or a namespace, so the parser never yields one).
\<close>

fun attributeNames :: "JsxAttributeLike list \<Rightarrow> string list" where
  "attributeNames [] = []"
| "attributeNames (JsxAttribute attrName ini l # attrs) = attrName # attributeNames attrs"
| "attributeNames (JsxSpreadAttribute # attrs) = attributeNames attrs"

definition noSentinelAttribute :: "Workspace \<Rightarrow> bool" where
  "noSentinelAttribute ws =
     list_all (\<lambda>file.
        case project ws file of
          None \<Rightarrow> True
        | Some sourceFile \<Rightarrow>
            list_all (\<lambda>e. spreadSentinel \<notin> set (attributeNames (attributes e)))
              (jsxElements sourceFile))
       (findFiles ws)"

text \<open>Once a node of the store has recorded the sentinel, all nodes allocated later have.\<close>

definition sentinelTail :: "store \<Rightarrow> bool" where
  "sentinelTail h =
     (\<forall>i j. i \<le> j \<and> j < length h \<and> PropNode.propName (h ! i) = spreadSentinel \<longrightarrow>
            PropNode.propName (h ! j) = spreadSentinel)"


section \<open>Scenarios\<close>

text \<open>
  Scenario A: \<^verbatim>\<open>Parent.tsx\<close> renders \<^verbatim>\<open><Child label="hi"/>\<close>, \<^verbatim>\<open>Child.tsx\<close>
  declares \<^verbatim>\<open>function Child({label})\<close>.
\<close>

definition parentFile :: SourceFile where
  \<open>parentFile = \<lparr>getFunctions = [\<lparr>functionName = Some ''Parent'', parameterProps = [],
       functionStartLine = 1, functionKeywordLine = Some 1\<rparr>],
     getVariableDeclarations = [], reExported = [], typeMembers = (\<lambda>_. []),
     jsxElements = [\<lparr>kind = JsxSelfClosingElement, tagName = ''Child'', startLine = 1,
        attributes = [JsxAttribute ''label'' (Some (StringLiteral ''"hi"'')) 1]\<rparr>]\<rparr>\<close>

definition childFile :: SourceFile where
  \<open>childFile = \<lparr>getFunctions = [\<lparr>functionName = Some ''Child'', parameterProps = [''label''],
       functionStartLine = 1, functionKeywordLine = Some 1\<rparr>],
     getVariableDeclarations = [], reExported = [], typeMembers = (\<lambda>_. []),
     jsxElements = [\<lparr>kind = JsxOpeningElement, tagName = ''p'', startLine = 1,
        attributes = []\<rparr>]\<rparr>\<close>

definition scenarioA :: Workspace where
  \<open>scenarioA = \<lparr>findFiles = [''/src/Parent.tsx'', ''/src/Child.tsx''],
     openTextDocument = [''/src/Parent.tsx'' \<mapsto> ''function Parent(){ return <Child label="hi"/> }'',
                         ''/src/Child.tsx'' \<mapsto> ''function Child({label}){ return <p>{label}</p> }''],
     project = [''/src/Parent.tsx'' \<mapsto> parentFile, ''/src/Child.tsx'' \<mapsto> childFile],
     regExpExec = (\<lambda>pattern text. [])\<rparr>\<close>

definition scenarioATrace :: PropTrace where
  "scenarioATrace = \<lparr>PropTrace.propName = ''label'', chain = [1, 0], isComplete = True,
     ambiguous = False\<rparr>"

definition scenarioAStore :: store where
  \<open>scenarioAStore =
     [\<lparr>componentName = ''Child'', filePath = ''/src/Child.tsx'', propName = ''label'',
       lineCode = 1, type = DEFINITION, parent = Some 1\<rparr>,
      \<lparr>componentName = ''Parent'', filePath = ''/src/Parent.tsx'', propName = ''"hi"'',
       lineCode = 1, type = SOURCE, parent = None\<rparr>]\<close>

text \<open>Scenario D: a component \<^verbatim>\<open>Orphan\<close> that nothing renders.\<close>

definition orphanFile :: SourceFile where
  "orphanFile = \<lparr>getFunctions = [\<lparr>functionName = Some ''Orphan'', parameterProps = [''title''],
       functionStartLine = 1, functionKeywordLine = Some 1\<rparr>],
     getVariableDeclarations = [], reExported = [], typeMembers = (\<lambda>_. []),
     jsxElements = [\<lparr>kind = JsxOpeningElement, tagName = ''h1'', startLine = 1,
        attributes = []\<rparr>]\<rparr>"

definition scenarioD :: Workspace where
  "scenarioD = \<lparr>findFiles = [''/src/Orphan.tsx''],
     openTextDocument =
       [''/src/Orphan.tsx'' \<mapsto> ''function Orphan({title}){ return <h1>{title}</h1> }''],
     project = [''/src/Orphan.tsx'' \<mapsto> orphanFile],
     regExpExec = (\<lambda>pattern text. [])\<rparr>"

definition scenarioDTrace :: PropTrace where
  "scenarioDTrace = \<lparr>PropTrace.propName = ''title'', chain = [0], isComplete = True,
     ambiguous = False\<rparr>"

definition scenarioDStore :: store where
  "scenarioDStore =
     [\<lparr>componentName = ''Orphan'', filePath = ''/src/Orphan.tsx'', propName = ''title'',
       lineCode = 1, type = SOURCE, parent = None\<rparr>]"

text \<open>
  A spread at two levels: \<^verbatim>\<open>Grand.tsx\<close> renders \<^verbatim>\<open><Parent {...props}/>\<close>,
  \<^verbatim>\<open>Wrapper.tsx\<close> declares \<^verbatim>\<open>Parent\<close>, which renders \<^verbatim>\<open><Child {...rest}/>\<close>.
\<close>

definition grandFile :: SourceFile where
  "grandFile = \<lparr>getFunctions = [\<lparr>functionName = Some ''Grand'', parameterProps = [],
       functionStartLine = 1, functionKeywordLine = Some 1\<rparr>],
     getVariableDeclarations = [], reExported = [], typeMembers = (\<lambda>_. []),
     jsxElements = [\<lparr>kind = JsxSelfClosingElement, tagName = ''Parent'', startLine = 1,
        attributes = [JsxSpreadAttribute]\<rparr>]\<rparr>"

definition wrapperFile :: SourceFile where
  "wrapperFile = \<lparr>getFunctions = [\<lparr>functionName = Some ''Parent'', parameterProps = [],
       functionStartLine = 1, functionKeywordLine = Some 1\<rparr>],
     getVariableDeclarations = [], reExported = [], typeMembers = (\<lambda>_. []),
     jsxElements = [\<lparr>kind = JsxSelfClosingElement, tagName = ''Child'', startLine = 1,
        attributes = [JsxSpreadAttribute]\<rparr>]\<rparr>"

definition scenarioC :: Workspace where
  "scenarioC = \<lparr>findFiles = [''/src/Grand.tsx'', ''/src/Wrapper.tsx'', ''/src/Child.tsx''],
     openTextDocument =
       [''/src/Grand.tsx'' \<mapsto> ''function Grand(props){ return <Parent {...props}/> }'',
        ''/src/Wrapper.tsx'' \<mapsto> ''function Parent(rest){ return <Child {...rest}/> }'',
        ''/src/Child.tsx'' \<mapsto> ''function Child({label}){ return <p>{label}</p> }''],
     project = [''/src/Grand.tsx'' \<mapsto> grandFile, ''/src/Wrapper.tsx'' \<mapsto> wrapperFile,
                ''/src/Child.tsx'' \<mapsto> childFile],
     regExpExec = (\<lambda>pattern text. [])\<rparr>"

definition scenarioCTrace :: PropTrace where
  "scenarioCTrace = \<lparr>PropTrace.propName = ''label'', chain = [2, 1, 0], isComplete = True,
     ambiguous = True\<rparr>"

definition scenarioCStore :: store where
  "scenarioCStore =
     [\<lparr>componentName = ''Child'', filePath = ''/src/Child.tsx'', propName = ''label'',
       lineCode = 1, type = DEFINITION, parent = Some 1\<rparr>,
      \<lparr>componentName = ''Parent'', filePath = ''/src/Wrapper.tsx'', propName = ''{...spread}'',
       lineCode = 1, type = USAGE, parent = Some 2\<rparr>,
      \<lparr>componentName = ''Grand'', filePath = ''/src/Grand.tsx'', propName = ''{...spread}'',
       lineCode = 1, type = SOURCE, parent = None\<rparr>]"

text \<open>
  Scenario E, a cycle of usages: \<^verbatim>\<open>A.tsx\<close> renders \<^verbatim>\<open><B x={x}/>\<close> and \<^verbatim>\<open>B.tsx\<close>
  renders \<^verbatim>\<open><A x={x}/>\<close>.
\<close>

definition cycleFile :: "string \<Rightarrow> string \<Rightarrow> SourceFile" where
  "cycleFile self other = \<lparr>getFunctions = [\<lparr>functionName = Some self, parameterProps = [''x''],
       functionStartLine = 1, functionKeywordLine = Some 1\<rparr>],
     getVariableDeclarations = [], reExported = [], typeMembers = (\<lambda>_. []),
     jsxElements = [\<lparr>kind = JsxSelfClosingElement, tagName = other, startLine = 1,
        attributes = [JsxAttribute ''x'' (Some (JsxExpression (Some ''x''))) 1]\<rparr>]\<rparr>"

definition scenarioE :: Workspace where
  "scenarioE = \<lparr>findFiles = [''/src/A.tsx'', ''/src/B.tsx''],
     openTextDocument =
       [''/src/A.tsx'' \<mapsto> ''function A({x}){ return <B x={x}/> }'',
        ''/src/B.tsx'' \<mapsto> ''function B({x}){ return <A x={x}/> }''],
     project = [''/src/A.tsx'' \<mapsto> cycleFile ''A'' ''B'', ''/src/B.tsx'' \<mapsto> cycleFile ''B'' ''A''],
     regExpExec = (\<lambda>pattern text. [])\<rparr>"

text \<open>
  A relay of twenty hops through two files: \<^verbatim>\<open>Ping.tsx\<close> renders \<^verbatim>\<open>Pong\<close> and passes
  \<^verbatim>\<open>p0={p1}\<close>, \<^verbatim>\<open>p2={p3}\<close>, up to \<^verbatim>\<open>p18={p19}\<close>; \<^verbatim>\<open>Pong.tsx\<close> renders
  \<^verbatim>\<open>Ping\<close> and passes \<^verbatim>\<open>p1={p2}\<close> up to \<^verbatim>\<open>p17={p18}\<close>. Nothing passes \<^verbatim>\<open>p19\<close>
  to \<^verbatim>\<open>Ping\<close>.
\<close>

definition relayFile :: "string \<Rightarrow> string \<Rightarrow> (string \<times> string) list \<Rightarrow> SourceFile" where
  "relayFile self other passed =
     \<lparr>getFunctions = [\<lparr>functionName = Some self, parameterProps = map snd passed,
        functionStartLine = 1, functionKeywordLine = Some 1\<rparr>],
      getVariableDeclarations = [], reExported = [], typeMembers = (\<lambda>_. []),
      jsxElements = [\<lparr>kind = JsxSelfClosingElement, tagName = other, startLine = 1,
        attributes = map (\<lambda>(n, v). JsxAttribute n (Some (JsxExpression (Some v))) 1) passed\<rparr>]\<rparr>"

definition pingPassed :: "(string \<times> string) list" where
  "pingPassed =
         [(''p0'', ''p1''),
          (''p2'', ''p3''),
          (''p4'', ''p5''),
          (''p6'', ''p7''),
          (''p8'', ''p9''),
          (''p10'', ''p11''),
          (''p12'', ''p13''),
          (''p14'', ''p15''),
          (''p16'', ''p17''),
          (''p18'', ''p19'')]"

definition pongPassed :: "(string \<times> string) list" where
  "pongPassed =
         [(''p1'', ''p2''),
          (''p3'', ''p4''),
          (''p5'', ''p6''),
          (''p7'', ''p8''),
          (''p9'', ''p10''),
          (''p11'', ''p12''),
          (''p13'', ''p14''),
          (''p15'', ''p16''),
          (''p17'', ''p18'')]"

definition relayWorkspace :: Workspace where
  "relayWorkspace = \<lparr>findFiles = [''/src/Ping.tsx'', ''/src/Pong.tsx''],
     openTextDocument =
       [''/src/Ping.tsx'' \<mapsto>
          ''function Ping({p1, p3, p5, p7, p9, p11, p13, p15, p17, p19})'' @
          ''{ return <Pong p0={p1} p2={p3} p4={p5} p6={p7} p8={p9} '' @
          ''p10={p11} p12={p13} p14={p15} p16={p17} p18={p19}/> }'',
        ''/src/Pong.tsx'' \<mapsto>
          ''function Pong({p2, p4, p6, p8, p10, p12, p14, p16, p18})'' @
          ''{ return <Ping p1={p2} p3={p4} p5={p6} p7={p8} p9={p10} '' @
          ''p11={p12} p13={p14} p15={p16} p17={p18}/> }''],
     project = [''/src/Ping.tsx'' \<mapsto> relayFile ''Ping'' ''Pong'' pingPassed,
                ''/src/Pong.tsx'' \<mapsto> relayFile ''Pong'' ''Ping'' pongPassed],
     regExpExec = (\<lambda>pattern text. [])\<rparr>"

text \<open>
  The usage test of the repository (\<^verbatim>\<open>astAnalyzer.test.ts\<close>): \<^verbatim>\<open>function Parent()\<close> on
  line 5 returns \<^verbatim>\<open><Button label="Click me" onClick={handleClick} />\<close> on line 6.
\<close>

definition buttonUsageFile :: SourceFile where
  \<open>buttonUsageFile = \<lparr>getFunctions = [\<lparr>functionName = Some ''Parent'', parameterProps = [],
       functionStartLine = 5, functionKeywordLine = Some 5\<rparr>],
     getVariableDeclarations = [], reExported = [], typeMembers = (\<lambda>_. []),
     jsxElements = [\<lparr>kind = JsxSelfClosingElement, tagName = ''Button'', startLine = 6,
        attributes = [JsxAttribute ''label'' (Some (StringLiteral ''"Click me"'')) 6,
                      JsxAttribute ''onClick'' (Some (JsxExpression (Some ''handleClick''))) 6]\<rparr>]\<rparr>\<close>

text \<open>\<^verbatim>\<open>const Panel = disconnect(() => null)\<close>, alone in its file.\<close>

definition panelDeclaration :: VariableDeclaration where
  "panelDeclaration = \<lparr>variableName = ''Panel'',
     initializer = Some (CallExpression (Identifier ''disconnect'') [ArrowFunction []]),
     typeAnnotationProps = [], declarationStartLine = 1, variableStatementLine = Some 1\<rparr>"

definition panelFile :: SourceFile where
  "panelFile = \<lparr>getFunctions = [], getVariableDeclarations = [panelDeclaration],
     reExported = [], typeMembers = (\<lambda>_. []), jsxElements = []\<rparr>"

definition panelWorkspace :: Workspace where
  "panelWorkspace = \<lparr>findFiles = [''/src/Panel.tsx''],
     openTextDocument = [''/src/Panel.tsx'' \<mapsto> ''const Panel = disconnect(() => null)''],
     project = [''/src/Panel.tsx'' \<mapsto> panelFile],
     regExpExec = (\<lambda>pattern text. [])\<rparr>"





section \<open>The loop and the final pass\<close>

declare traceLoop.simps [simp del]

lemma length_setType [simp]: "length (setType h a t) = length h"
  by (simp add: setType_def)

lemma length_setParent [simp]: "length (setParent h a p) = length h"
  by (simp add: setParent_def)

lemma nth_setType:
  "i < length h \<Longrightarrow> setType h a t ! i = (if i = a then (h ! i)\<lparr>type := t\<rparr> else h ! i)"
  by (auto simp: setType_def)

lemma nth_setParent:
  "i < length h \<Longrightarrow> setParent h a p ! i = (if i = a then (h ! i)\<lparr>parent := p\<rparr> else h ! i)"
  by (auto simp: setParent_def)

lemma analyzeLocation_parent:
  "analyzeLocationForPropUsage ws loc node = Some p \<Longrightarrow> parent p = None"
  by (auto simp: analyzeLocationForPropUsage_def Let_def split: option.splits sum.splits)

lemma findParentLoop_parent:
  "findParentLoop ws node usages = Some p \<Longrightarrow> parent p = None"
  by (induction usages) (auto split: if_splits option.splits dest: analyzeLocation_parent)

lemma findParentNode_parent:
  "findParentNode ws node = Some p \<Longrightarrow> parent p = None"
  by (auto simp: findParentNode_def Let_def split: if_splits dest: findParentLoop_parent)

lemma linked_markSource: "linked s \<Longrightarrow> linked (markSource s)"
  by (auto simp: linked_def markSource_def nth_setType)

lemma linked_depth: "linked s \<Longrightarrow> linked (s\<lparr>depth := d\<rparr>)"
  by (simp add: linked_def)

lemma linked_advance:
  assumes "linked s" and "parent p = None"
  shows "linked (advance s p)"
proof -
  let ?n = "length (nodes s)"
  from assms(1) have pos: "0 < ?n" and c: "chainSoFar s = [0 ..< ?n]"
    and cur: "currentNode s = ?n - 1"
    and links: "\<And>i. Suc i < ?n \<Longrightarrow> parent (nodes s ! i) = Some (Suc i)"
    by (simp_all add: linked_def)
  have "parent (nodes (advance s p) ! i) = Some (Suc i)" if "Suc i < length (nodes (advance s p))" for i
  proof (cases "Suc i < ?n")
    case True
    with links[OF True] cur show ?thesis
      by (simp add: advance_def Let_def nth_setParent nth_append)
  next
    case False
    with that have "i = ?n - 1" by (simp add: advance_def Let_def)
    with pos cur show ?thesis
      by (simp add: advance_def Let_def nth_setParent nth_append)
  qed
  moreover have "parent (nodes (advance s p) ! (length (nodes (advance s p)) - 1)) = None"
  proof -
    have ne: "?n \<noteq> currentNode s" using pos cur by arith
    have "nodes (advance s p) ! ?n = p"
      using ne by (simp add: advance_def Let_def nth_setParent nth_append)
    with assms(2) show ?thesis by (simp add: advance_def Let_def)
  qed
  ultimately show ?thesis
    using c pos by (simp add: linked_def advance_def Let_def)
qed

lemma traceLoop_linked: "linked s \<Longrightarrow> linked (traceLoop this ws s)"
proof (induction this ws s rule: traceLoop.induct)
  case (1 this ws s)
  show ?case
  proof (cases "depth s < maxDepth this")
    case False
    with "1.prems" show ?thesis by (simp add: traceLoop.simps)
  next
    case True
    show ?thesis
    proof (cases "findParentNode ws (nodes s ! currentNode s)")
      case None
      with True "1.prems" show ?thesis
        by (simp add: traceLoop.simps linked_markSource linked_depth)
    next
      case (Some p)
      have "linked (advance (s\<lparr>depth := depth s + 1\<rparr>) p)"
        using "1.prems" Some by (intro linked_advance linked_depth findParentNode_parent)
      from "1.IH"[OF True Some this] True Some show ?thesis
        by (simp add: traceLoop.simps)
    qed
  qed
qed

lemma dataOf_setType: "i < length h \<Longrightarrow> dataOf (setType h a t ! i) = dataOf (h ! i)"
  by (simp add: nth_setType dataOf_def)

lemma dataOf_setParent: "i < length h \<Longrightarrow> dataOf (setParent h a p ! i) = dataOf (h ! i)"
  by (simp add: nth_setParent dataOf_def)

lemma parent_setType: "i < length h \<Longrightarrow> parent (setType h a t ! i) = parent (h ! i)"
  by (simp add: nth_setType)

lemma markSource_nodes:
  "length (nodes (markSource s)) = length (nodes s)"
  "i < length (nodes s) \<Longrightarrow> dataOf (nodes (markSource s) ! i) = dataOf (nodes s ! i)"
  by (simp_all add: markSource_def dataOf_setType)

lemma markSource_fields [simp]:
  "chainSoFar (markSource s) = chainSoFar s"
  "currentNode (markSource s) = currentNode s"
  "depth (markSource s) = depth s"
  "ambiguousSoFar (markSource s) = ambiguousSoFar s"
  by (simp_all add: markSource_def)

lemma advance_fields [simp]:
  "chainSoFar (advance s p) = chainSoFar s @ [length (nodes s)]"
  "currentNode (advance s p) = length (nodes s)"
  "depth (advance s p) = depth s"
  "ambiguousSoFar (advance s p) = (PropNode.propName p = spreadSentinel \<or> ambiguousSoFar s)"
  "length (nodes (advance s p)) = Suc (length (nodes s))"
  by (auto simp: advance_def Let_def)

lemma advance_nodes_old:
  "i < length (nodes s) \<Longrightarrow> dataOf (nodes (advance s p) ! i) = dataOf (nodes s ! i)"
  by (simp add: advance_def Let_def dataOf_setParent nth_append)

lemma advance_nodes_new:
  "currentNode s < length (nodes s) \<Longrightarrow> nodes (advance s p) ! length (nodes s) = p"
  by (simp add: advance_def Let_def nth_setParent nth_append)

lemma linked_current: "linked s \<Longrightarrow> currentNode s < length (nodes s)"
  by (simp add: linked_def)

lemma traceLoop_unfold_exit:
  "\<not> depth s < maxDepth this \<Longrightarrow> traceLoop this ws s = s"
  by (simp add: traceLoop.simps)

lemma traceLoop_unfold_break:
  "depth s < maxDepth this \<Longrightarrow> findParentNode ws (nodes s ! currentNode s) = None \<Longrightarrow>
   traceLoop this ws s = markSource (s\<lparr>depth := depth s + 1\<rparr>)"
  by (simp add: traceLoop.simps)

lemma traceLoop_unfold_advance:
  "depth s < maxDepth this \<Longrightarrow> findParentNode ws (nodes s ! currentNode s) = Some p \<Longrightarrow>
   traceLoop this ws s = traceLoop this ws (advance (s\<lparr>depth := depth s + 1\<rparr>) p)"
  by (simp add: traceLoop.simps)

lemma traceLoop_nodes:
  "length (nodes s) \<le> length (nodes (traceLoop this ws s)) \<and>
   (\<forall>i < length (nodes s). dataOf (nodes (traceLoop this ws s) ! i) = dataOf (nodes s ! i))"
proof (induction this ws s rule: traceLoop.induct)
  case (1 this ws s)
  show ?case
  proof (cases "depth s < maxDepth this")
    case False
    then show ?thesis by (simp add: traceLoop_unfold_exit)
  next
    case True
    show ?thesis
    proof (cases "findParentNode ws (nodes s ! currentNode s)")
      case None
      with True show ?thesis
        by (simp add: traceLoop_unfold_break markSource_nodes)
    next
      case (Some p)
      let ?s1 = "advance (s\<lparr>depth := depth s + 1\<rparr>) p"
      from "1.IH"[OF True Some]
      have len: "length (nodes ?s1) \<le> length (nodes (traceLoop this ws ?s1))"
        and old: "\<And>i. i < length (nodes ?s1) \<Longrightarrow>
                   dataOf (nodes (traceLoop this ws ?s1) ! i) = dataOf (nodes ?s1 ! i)"
        by simp_all
      have "dataOf (nodes (traceLoop this ws ?s1) ! i) = dataOf (nodes s ! i)"
        if "i < length (nodes s)" for i
        using old[of i] that advance_nodes_old[of i "s\<lparr>depth := depth s + 1\<rparr>" p] by simp
      with len show ?thesis
        by (simp add: traceLoop_unfold_advance[OF True Some])
    qed
  qed
qed

lemma traceLoop_length:
  "length (chainSoFar s) \<le> length (chainSoFar (traceLoop this ws s)) \<and>
   length (chainSoFar (traceLoop this ws s)) \<le> length (chainSoFar s) + (maxDepth this - depth s)"
proof (induction this ws s rule: traceLoop.induct)
  case (1 this ws s)
  show ?case
  proof (cases "depth s < maxDepth this")
    case False
    then show ?thesis by (simp add: traceLoop_unfold_exit)
  next
    case True
    show ?thesis
    proof (cases "findParentNode ws (nodes s ! currentNode s)")
      case None
      with True show ?thesis
        by (simp add: traceLoop_unfold_break)
    next
      case (Some p)
      from "1.IH"[OF True Some] True show ?thesis
        unfolding traceLoop_unfold_advance[OF True Some] by simp arith
    qed
  qed
qed

lemma traceLoop_ambiguous:
  "linked s \<Longrightarrow>
   ambiguousSoFar (traceLoop this ws s) =
     (ambiguousSoFar s \<or>
      (\<exists>i. length (nodes s) \<le> i \<and> i < length (nodes (traceLoop this ws s)) \<and>
           PropNode.propName (nodes (traceLoop this ws s) ! i) = spreadSentinel))"
proof (induction this ws s rule: traceLoop.induct)
  case (1 this ws s)
  show ?case
  proof (cases "depth s < maxDepth this")
    case False
    then show ?thesis by (auto simp: traceLoop_unfold_exit)
  next
    case True
    show ?thesis
    proof (cases "findParentNode ws (nodes s ! currentNode s)")
      case None
      with True show ?thesis
        by (auto simp: traceLoop_unfold_break markSource_nodes)
    next
      case (Some p)
      let ?s0 = "s\<lparr>depth := depth s + 1\<rparr>"
      let ?s1 = "advance ?s0 p"
      let ?f = "traceLoop this ws ?s1"
      let ?n = "length (nodes s)"
      have l0: "linked ?s0" using "1.prems" by (rule linked_depth)
      have l1: "linked ?s1"
        using l0 Some by (intro linked_advance findParentNode_parent)
      have new: "nodes ?s1 ! ?n = p"
        using advance_nodes_new[of ?s0 p] linked_current[OF l0] by simp
      have "dataOf (nodes ?f ! ?n) = dataOf (nodes ?s1 ! ?n)"
        using traceLoop_nodes[of ?s1 this ws] by simp
      with new have pn: "PropNode.propName (nodes ?f ! ?n) = PropNode.propName p"
        by (simp add: dataOf_def)
      have len: "Suc ?n \<le> length (nodes ?f)"
        using traceLoop_nodes[of ?s1 this ws] by simp
      have split: "(\<exists>i. ?n \<le> i \<and> i < length (nodes ?f) \<and> PropNode.propName (nodes ?f ! i) = spreadSentinel)
          = (PropNode.propName p = spreadSentinel \<or>
             (\<exists>i. Suc ?n \<le> i \<and> i < length (nodes ?f) \<and> PropNode.propName (nodes ?f ! i) = spreadSentinel))"
        (is "?L = ?R")
      proof
        assume ?L
        then obtain i where i: "?n \<le> i" "i < length (nodes ?f)"
          "PropNode.propName (nodes ?f ! i) = spreadSentinel" by blast
        show ?R
        proof (cases "i = ?n")
          case True
          with i pn show ?thesis by simp
        next
          case False
          with i have "Suc ?n \<le> i" by simp
          with i show ?thesis by blast
        qed
      next
        assume ?R
        then show ?L
        proof
          assume "PropNode.propName p = spreadSentinel"
          with pn len show ?L by (intro exI[of _ ?n]) simp
        next
          assume "\<exists>i. Suc ?n \<le> i \<and> i < length (nodes ?f) \<and> PropNode.propName (nodes ?f ! i) = spreadSentinel"
          then obtain i where "Suc ?n \<le> i" "i < length (nodes ?f)"
            "PropNode.propName (nodes ?f ! i) = spreadSentinel" by blast
          then show ?L by (intro exI[of _ i]) simp
        qed
      qed
      from "1.IH"[OF True Some l1]
      have "ambiguousSoFar ?f =
        ((PropNode.propName p = spreadSentinel \<or> ambiguousSoFar s) \<or>
         (\<exists>i. Suc ?n \<le> i \<and> i < length (nodes ?f) \<and> PropNode.propName (nodes ?f ! i) = spreadSentinel))"
        by simp
      with split show ?thesis
        by (simp only: traceLoop_unfold_advance[OF True Some]) blast
    qed
  qed
qed

lemma fold_setType_length [simp]:
  "length (fold (\<lambda>i h'. setType h' (r ! i) t) js h) = length h"
  by (induction js arbitrary: h) simp_all

lemma fold_setType_data:
  "a < length h \<Longrightarrow>
   dataOf (fold (\<lambda>i h'. setType h' (r ! i) t) js h ! a) = dataOf (h ! a) \<and>
   parent (fold (\<lambda>i h'. setType h' (r ! i) t) js h ! a) = parent (h ! a)"
  by (induction js arbitrary: h) (simp_all add: dataOf_setType parent_setType)

lemma fold_setType_type:
  "a < length h \<Longrightarrow>
   type (fold (\<lambda>i h'. setType h' (r ! i) t) js h ! a) =
     (if a \<in> (\<lambda>i. r ! i) ` set js then t else type (h ! a))"
  by (induction js arbitrary: h) (auto simp: nth_setType)

lemma markChain_length [simp]: "length (markChain h r) = length h"
  by (simp add: markChain_def Let_def)

lemma markChain_data:
  "a < length h \<Longrightarrow>
   dataOf (markChain h r ! a) = dataOf (h ! a) \<and> parent (markChain h r ! a) = parent (h ! a)"
  by (simp add: markChain_def Let_def fold_setType_data dataOf_setType parent_setType)

lemma markChain_single:
  "a < length h \<Longrightarrow> type (markChain h [a] ! a) = SOURCE"
  by (simp add: markChain_def Let_def nth_setType)

lemma markChain_long:
  "1 < length r \<Longrightarrow>
   markChain h r =
     fold (\<lambda>i h'. setType h' (r ! i) USAGE) [1 ..< length r - 1]
       (setType (setType h (r ! 0) SOURCE) (r ! (length r - 1)) DEFINITION)"
  by (cases r) (simp_all add: markChain_def Let_def)

lemma distinct_nth_neq:
  "distinct r \<Longrightarrow> i < length r \<Longrightarrow> j < length r \<Longrightarrow> i \<noteq> j \<Longrightarrow> r ! i \<noteq> r ! j"
  by (simp add: nth_eq_iff_index_eq)

lemma markChain_first:
  assumes "distinct r" and "\<forall>a \<in> set r. a < length h" and "r \<noteq> []"
  shows "type (markChain h r ! (r ! 0)) = SOURCE"
proof (cases "1 < length r")
  case False
  with assms(3) obtain a where "r = [a]" by (cases r) auto
  with assms(2) show ?thesis by (simp add: markChain_single)
next
  case True
  have r0: "r ! 0 < length h" using assms(2,3) by simp
  have "r ! 0 \<noteq> r ! j" if "j \<in> set [1 ..< length r - 1]" for j
    using that True by (intro distinct_nth_neq[OF assms(1)]) auto
  then have notin: "r ! 0 \<notin> (\<lambda>i. r ! i) ` set [1 ..< length r - 1]"
    by blast
  have neq: "r ! 0 \<noteq> r ! (length r - 1)"
    using True by (intro distinct_nth_neq[OF assms(1)]) auto
  show ?thesis
    unfolding markChain_long[OF True]
    using r0 notin neq by (simp add: fold_setType_type nth_setType)
qed

lemma markChain_last:
  assumes "distinct r" and "\<forall>a \<in> set r. a < length h" and "1 < length r"
  shows "type (markChain h r ! (r ! (length r - 1))) = DEFINITION"
proof -
  have rl: "r ! (length r - 1) < length h" using assms(2,3) by simp
  have "r ! (length r - 1) \<noteq> r ! j" if "j \<in> set [1 ..< length r - 1]" for j
    using that assms(3) by (intro distinct_nth_neq[OF assms(1)]) auto
  then have notin: "r ! (length r - 1) \<notin> (\<lambda>i. r ! i) ` set [1 ..< length r - 1]"
    by blast
  show ?thesis
    unfolding markChain_long[OF assms(3)]
    using rl notin by (simp add: fold_setType_type nth_setType)
qed

lemma markChain_interior:
  assumes "\<forall>a \<in> set r. a < length h" and "0 < i" and "i < length r - 1"
  shows "type (markChain h r ! (r ! i)) = USAGE"
proof -
  have long: "1 < length r" using assms(2,3) by simp
  have ri: "r ! i < length h" using assms by simp
  have "i \<in> set [1 ..< length r - 1]" using assms(2,3) by simp
  then have "r ! i \<in> (\<lambda>i. r ! i) ` set [1 ..< length r - 1]"
    by (rule imageI)
  then show ?thesis
    unfolding markChain_long[OF long] using ri by (simp add: fold_setType_type)
qed

lemma buildPropChain_Inr:
  assumes "buildPropChain this ws fp cn pn = Inr (t, h)"
  shows "(t, h) = finishTrace this pn (traceLoop this ws (initialState (requestedNode ws fp cn pn)))"
  using assms
  by (auto simp: buildPropChain_def requestedNode_def Let_def split: sum.splits)

lemma linked_initialState: "parent node = None \<Longrightarrow> linked (initialState node)"
  by (simp add: linked_def initialState_def)

lemma linked_final:
  "linked (traceLoop this ws (initialState (requestedNode ws fp cn pn)))"
  by (intro traceLoop_linked linked_initialState) (simp add: requestedNode_def)

lemma finishTrace_parts:
  assumes "(t, h) = finishTrace this pn s"
  shows "chain t = rev (chainSoFar s)" and "h = markChain (nodes s) (rev (chainSoFar s))"
    and "isComplete t = (depth s < maxDepth this)" and "ambiguous t = ambiguousSoFar s"
    and "PropTrace.propName t = pn"
  using assms by (auto simp: finishTrace_def Let_def)

lemma linked_chain:
  assumes "linked s"
  shows "distinct (rev (chainSoFar s))" and "\<forall>a \<in> set (rev (chainSoFar s)). a < length (nodes s)"
    and "rev (chainSoFar s) \<noteq> []" and "length (rev (chainSoFar s)) = length (nodes s)"
    and "\<And>i. i < length (nodes s) \<Longrightarrow> rev (chainSoFar s) ! i = length (nodes s) - 1 - i"
  using assms by (auto simp: linked_def rev_nth)

lemma scenarioA_result:
  "buildPropChain newGraphBuilder scenarioA ''/src/Child.tsx'' ''Child'' ''label''
     = Inr (scenarioATrace, scenarioAStore)"
  by code_simp

lemma scenarioD_result:
  "buildPropChain newGraphBuilder scenarioD ''/src/Orphan.tsx'' ''Orphan'' ''title''
     = Inr (scenarioDTrace, scenarioDStore)"
  by code_simp

lemma analyzeLocation_cong:
  "dataOf n = dataOf m \<Longrightarrow>
   analyzeLocationForPropUsage ws loc n = analyzeLocationForPropUsage ws loc m"
  by (simp add: analyzeLocationForPropUsage_def dataOf_def Let_def cong: option.case_cong)

lemma findParentLoop_cong:
  "dataOf n = dataOf m \<Longrightarrow> findParentLoop ws n usages = findParentLoop ws m usages"
proof (induction usages)
  case Nil
  show ?case by simp
next
  case (Cons loc usages)
  from Cons.prems have "filePath n = filePath m" by (simp add: dataOf_def)
  with Cons show ?case
    by (simp add: analyzeLocation_cong[OF Cons.prems] cong: option.case_cong)
qed

lemma findParentNode_cong:
  "dataOf n = dataOf m \<Longrightarrow> findParentNode ws n = findParentNode ws m"
  using findParentLoop_cong[of n m ws]
  by (simp add: findParentNode_def dataOf_def Let_def)

lemma markSource_current:
  "currentNode s < length (nodes s) \<Longrightarrow>
   dataOf (nodes (markSource s) ! currentNode s) = dataOf (nodes s ! currentNode s)"
  by (simp add: markSource_nodes)

lemma traceLoop_cut:
  assumes "linked s" and "depth s \<le> maxDepth this"
    and "findParentNode ws (nodes (traceLoop this ws s) ! currentNode (traceLoop this ws s)) \<noteq> None"
  shows "length (chainSoFar (traceLoop this ws s)) = length (chainSoFar s) + (maxDepth this - depth s)
         \<and> depth (traceLoop this ws s) = maxDepth this"
  using assms
proof (induction this ws s rule: traceLoop.induct)
  case (1 this ws s)
  show ?case
  proof (cases "depth s < maxDepth this")
    case False
    with "1.prems"(2) show ?thesis by (simp add: traceLoop_unfold_exit)
  next
    case True
    show ?thesis
    proof (cases "findParentNode ws (nodes s ! currentNode s)")
      case None
      let ?s0 = "s\<lparr>depth := depth s + 1\<rparr>"
      have cur: "currentNode ?s0 < length (nodes ?s0)"
        using linked_current[OF "1.prems"(1)] by simp
      have "findParentNode ws (nodes (markSource ?s0) ! currentNode ?s0)
              = findParentNode ws (nodes ?s0 ! currentNode ?s0)"
        by (rule findParentNode_cong) (rule markSource_current[OF cur])
      with None have "findParentNode ws (nodes (markSource ?s0) ! currentNode (markSource ?s0)) = None"
        by simp
      with "1.prems"(3) show ?thesis
        by (simp add: traceLoop_unfold_break[OF True None])
    next
      case (Some p)
      let ?s1 = "advance (s\<lparr>depth := depth s + 1\<rparr>) p"
      have l1: "linked ?s1"
        using "1.prems"(1) Some by (intro linked_advance linked_depth findParentNode_parent)
      have d1: "depth ?s1 \<le> maxDepth this" using True by simp
      have p1: "findParentNode ws (nodes (traceLoop this ws ?s1) ! currentNode (traceLoop this ws ?s1)) \<noteq> None"
        using "1.prems"(3) by (simp add: traceLoop_unfold_advance[OF True Some])
      from "1.IH"[OF True Some l1 d1 p1] True show ?thesis
        unfolding traceLoop_unfold_advance[OF True Some] by simp
    qed
  qed
qed

lemma initialState_fields [simp]:
  "nodes (initialState node) = [node]" "chainSoFar (initialState node) = [0]"
  "currentNode (initialState node) = 0" "depth (initialState node) = 0"
  "ambiguousSoFar (initialState node) = False"
  by (simp_all add: initialState_def)

text \<open>The facts about a returned trace that the properties below start from.\<close>

lemma trace_facts:
  assumes "buildPropChain this ws fp cn pn = Inr (t, h)"
  defines "s \<equiv> traceLoop this ws (initialState (requestedNode ws fp cn pn))"
  shows "linked s" and "chain t = rev (chainSoFar s)" and "h = markChain (nodes s) (chain t)"
    and "length (chain t) = length (nodes s)" and "length h = length (nodes s)"
    and "\<And>i. i < length (nodes s) \<Longrightarrow> chain t ! i = length (nodes s) - 1 - i"
    and "\<And>a. a < length (nodes s) \<Longrightarrow> dataOf (h ! a) = dataOf (nodes s ! a)"
    and "dataOf (nodes s ! 0) = dataOf (requestedNode ws fp cn pn)"
    and "isComplete t = (depth s < maxDepth this)" and "ambiguous t = ambiguousSoFar s"
proof -
  have fin: "(t, h) = finishTrace this pn s"
    unfolding s_def using assms(1) by (rule buildPropChain_Inr)
  show l: "linked s" unfolding s_def by (rule linked_final)
  show c: "chain t = rev (chainSoFar s)" using finishTrace_parts[OF fin] by simp
  show h: "h = markChain (nodes s) (chain t)" using finishTrace_parts[OF fin] by simp
  show "length (chain t) = length (nodes s)" using c linked_chain(4)[OF l] by simp
  show "length h = length (nodes s)" using h by simp
  show "chain t ! i = length (nodes s) - 1 - i" if "i < length (nodes s)" for i
    using c linked_chain(5)[OF l that] by simp
  show "dataOf (h ! a) = dataOf (nodes s ! a)" if "a < length (nodes s)" for a
    using h markChain_data[OF that] by simp
  show "dataOf (nodes s ! 0) = dataOf (requestedNode ws fp cn pn)"
    unfolding s_def
    using traceLoop_nodes[of "initialState (requestedNode ws fp cn pn)" this ws] by simp
  show "isComplete t = (depth s < maxDepth this)" using finishTrace_parts[OF fin] by simp
  show "ambiguous t = ambiguousSoFar s" using finishTrace_parts[OF fin] by simp
qed

lemma matchIdentifier_word: "matchIdentifier s = Some m \<Longrightarrow> list_all isWordChar m"
  by (auto simp: matchIdentifier_def Let_def list_all_iff split: if_splits dest: set_takeWhileD)

lemma matchPropsAccess_word: "matchPropsAccess s = Some m \<Longrightarrow> list_all isWordChar m"
  by (induction s) (auto simp: list_all_iff split: if_splits dest: set_takeWhileD)

lemma sentinel_not_word: "\<not> list_all isWordChar spreadSentinel"
  by (simp add: spreadSentinel_def isWordChar_def)

lemma extractPropName_sentinel:
  "extractPropName v = spreadSentinel \<longleftrightarrow> v = Some spreadSentinel"
proof (cases v)
  case None
  then show ?thesis by (simp add: extractPropName_def spreadSentinel_def)
next
  case (Some s)
  show ?thesis
  proof (cases "s = [] \<or> s = spreadSentinel")
    case True
    with Some show ?thesis by (auto simp: extractPropName_def spreadSentinel_def)
  next
    case False
    have "extractPropName (Some s) \<noteq> spreadSentinel"
    proof (cases "matchIdentifier s")
      case (Some m)
      with matchIdentifier_word[OF Some] sentinel_not_word False show ?thesis
        by (auto simp: extractPropName_def)
    next
      case None
      show ?thesis
      proof (cases "matchPropsAccess s")
        case (Some m)
        with matchPropsAccess_word[OF Some] sentinel_not_word False None show ?thesis
          by (auto simp: extractPropName_def)
      next
        case None
        with \<open>matchIdentifier s = None\<close> False show ?thesis
          by (simp add: extractPropName_def)
      qed
    qed
    with Some False show ?thesis by simp
  qed
qed

lemma scanAttributes_sentinel:
  "spreadSentinel \<notin> set (attributeNames attrs) \<Longrightarrow> scanAttributes spreadSentinel attrs = None"
  by (induction attrs rule: attributeNames.induct) auto

lemma elementUsage_sentinel:
  assumes "spreadSentinel \<notin> set (attributeNames (attributes e))"
    and "elementUsage spreadSentinel e l = Some u"
  shows "value u = Some spreadSentinel"
  using assms(2) scanAttributes_sentinel[OF assms(1)]
  by (auto simp: elementUsage_def split: if_splits)

lemma closest_in: "closest nearLine m ms \<in> set (m # ms)"
  by (induction ms arbitrary: m) auto

lemma findPropUsageAtLocation_sentinel:
  assumes "\<forall>e \<in> set (jsxElements sourceFile). spreadSentinel \<notin> set (attributeNames (attributes e))"
    and "findPropUsageAtLocation sourceFile cn spreadSentinel nearLine = Some u"
  shows "value u = Some spreadSentinel"
proof -
  let ?all = "openingElements sourceFile @ selfClosingElements sourceFile"
  let ?ms = "filter (\<lambda>e. tagName e = cn) ?all"
  from assms(2) obtain m rest where ms: "?ms = m # rest"
    by (cases ?ms) (auto simp: findPropUsageAtLocation_def Let_def)
  let ?c = "closest nearLine m ?ms"
  have "?c \<in> set (m # ?ms)" by (rule closest_in)
  with ms have "?c \<in> set ?ms" by auto
  then have "?c \<in> set (jsxElements sourceFile)"
    by (auto simp: openingElements_def selfClosingElements_def)
  with assms(1) have ok: "spreadSentinel \<notin> set (attributeNames (attributes ?c))" by blast
  from assms(2) ms have "elementUsage spreadSentinel ?c (startLine ?c) = Some u"
    by (simp add: findPropUsageAtLocation_def Let_def)
  with ok show ?thesis by (rule elementUsage_sentinel)
qed

lemma analyzeLocation_sentinel:
  assumes "noSentinelAttribute ws" and "fsPath loc \<in> set (findFiles ws)"
    and "PropNode.propName node = spreadSentinel"
    and "analyzeLocationForPropUsage ws loc node = Some p"
  shows "PropNode.propName p = spreadSentinel"
proof -
  from assms(4) obtain sourceFile u where sf: "project ws (fsPath loc) = Some sourceFile"
    and u: "findPropUsageAtLocation sourceFile (componentName node) (PropNode.propName node)
              (startLine0 loc + 1) = Some u"
    and p: "PropNode.propName p = extractPropName (value u)"
    by (auto simp: analyzeLocationForPropUsage_def Let_def split: option.splits sum.splits)
  from assms(1,2) sf
  have "\<forall>e \<in> set (jsxElements sourceFile). spreadSentinel \<notin> set (attributeNames (attributes e))"
    by (auto simp: noSentinelAttribute_def list_all_iff split: option.splits)
  from findPropUsageAtLocation_sentinel[OF this] u assms(3)
  have "value u = Some spreadSentinel" by simp
  with p show ?thesis by (simp add: extractPropName_sentinel)
qed

lemma findParentLoop_sentinel:
  assumes "noSentinelAttribute ws" and "\<forall>loc \<in> set usages. fsPath loc \<in> set (findFiles ws)"
    and "PropNode.propName node = spreadSentinel"
    and "findParentLoop ws node usages = Some p"
  shows "PropNode.propName p = spreadSentinel"
  using assms(2,4)
proof (induction usages)
  case Nil
  then show ?case by simp
next
  case (Cons loc usages)
  show ?case
  proof (cases "fsPath loc = filePath node")
    case True
    with Cons show ?thesis by simp
  next
    case False
    show ?thesis
    proof (cases "analyzeLocationForPropUsage ws loc node")
      case None
      with False Cons show ?thesis by simp
    next
      case (Some q)
      with False Cons.prems(2) have "q = p" by simp
      with Some Cons.prems(1) assms(1,3) show ?thesis
        by (intro analyzeLocation_sentinel[of ws loc node p]) simp_all
    qed
  qed
qed

lemma usages_in_findFiles:
  "loc \<in> set (findComponentUsagesInWorkspace ws cn) \<Longrightarrow> fsPath loc \<in> set (findFiles ws)"
  by (auto simp: findComponentUsagesInWorkspace_def split: option.splits)

lemma findParentNode_sentinel:
  assumes "noSentinelAttribute ws" and "PropNode.propName node = spreadSentinel"
    and "findParentNode ws node = Some p"
  shows "PropNode.propName p = spreadSentinel"
proof -
  let ?usages = "findComponentUsagesInWorkspace ws (componentName node)"
  from assms(3) have "findParentLoop ws node ?usages = Some p"
    by (simp add: findParentNode_def Let_def split: if_splits)
  moreover have "\<forall>loc \<in> set ?usages. fsPath loc \<in> set (findFiles ws)"
    using usages_in_findFiles by blast
  ultimately show ?thesis using assms(1,2) by (intro findParentLoop_sentinel[of ws ?usages node p])
qed

lemma scenarioC_result:
  "buildPropChain newGraphBuilder scenarioC ''/src/Child.tsx'' ''Child'' ''label''
     = Inr (scenarioCTrace, scenarioCStore)"
  by code_simp

lemma scenarioC_noSentinel: "noSentinelAttribute scenarioC"
  by code_simp

lemma scenarioE_cut:
  "(case buildPropChain newGraphBuilder scenarioE ''/src/B.tsx'' ''B'' ''x'' of
      Inl e \<Rightarrow> False
    | Inr (t, h) \<Rightarrow> findParentNode scenarioE (h ! (chain t ! 0)) \<noteq> None)"
  by code_simp

lemma sentinelTail_cong:
  assumes "length h' = length h" and "\<forall>i < length h. dataOf (h' ! i) = dataOf (h ! i)"
    and "sentinelTail h"
  shows "sentinelTail h'"
proof -
  have eq: "PropNode.propName (h' ! i) = PropNode.propName (h ! i)" if "i < length h" for i
    using assms(2) that by (simp add: dataOf_def)
  show ?thesis
    unfolding sentinelTail_def
  proof (intro allI impI)
    fix i j
    assume a: "i \<le> j \<and> j < length h' \<and> PropNode.propName (h' ! i) = spreadSentinel"
    then have j: "j < length h" and i: "i < length h" using assms(1) by simp_all
    from a eq[OF i] have "PropNode.propName (h ! i) = spreadSentinel" by simp
    with a j assms(3) have "PropNode.propName (h ! j) = spreadSentinel"
      unfolding sentinelTail_def by blast
    with eq[OF j] show "PropNode.propName (h' ! j) = spreadSentinel" by simp
  qed
qed

lemma sentinelTail_advance:
  assumes "linked s" and "sentinelTail (nodes s)"
    and "PropNode.propName (nodes s ! currentNode s) = spreadSentinel
           \<longrightarrow> PropNode.propName p = spreadSentinel"
  shows "sentinelTail (nodes (advance s p))"
proof -
  let ?n = "length (nodes s)"
  let ?h = "nodes (advance s p)"
  have cur: "currentNode s = ?n - 1" and pos: "0 < ?n"
    using assms(1) by (simp_all add: linked_def)
  have old: "PropNode.propName (?h ! i) = PropNode.propName (nodes s ! i)" if "i < ?n" for i
    using advance_nodes_old[OF that, of p] by (simp add: dataOf_def)
  have new: "?h ! ?n = p"
    using advance_nodes_new[of s p] linked_current[OF assms(1)] by simp
  have "PropNode.propName (?h ! j) = spreadSentinel"
    if ij: "i \<le> j" "j < length ?h" and si: "PropNode.propName (?h ! i) = spreadSentinel" for i j
  proof (cases "j < ?n")
    case True
    with ij have i: "i < ?n" by simp
    from si old[OF i] have "PropNode.propName (nodes s ! i) = spreadSentinel" by simp
    with ij(1) True assms(2) have "PropNode.propName (nodes s ! j) = spreadSentinel"
      unfolding sentinelTail_def by blast
    with old[OF True] show ?thesis by simp
  next
    case False
    with ij have j: "j = ?n" by simp
    show ?thesis
    proof (cases "i = ?n")
      case True
      with si j show ?thesis by simp
    next
      case False
      with ij j have i: "i < ?n" by simp
      with si old[of i] have "PropNode.propName (nodes s ! i) = spreadSentinel" by simp
      moreover have "i \<le> ?n - 1" "?n - 1 < ?n" using i pos by simp_all
      ultimately have "PropNode.propName (nodes s ! (?n - 1)) = spreadSentinel"
        using assms(2) unfolding sentinelTail_def by blast
      with assms(3) cur new j show ?thesis by simp
    qed
  qed
  then show ?thesis unfolding sentinelTail_def by blast
qed

lemma traceLoop_sentinelTail:
  "noSentinelAttribute ws \<Longrightarrow> linked s \<Longrightarrow> sentinelTail (nodes s) \<Longrightarrow>
   sentinelTail (nodes (traceLoop this ws s))"
proof (induction this ws s rule: traceLoop.induct)
  case (1 this ws s)
  note wf = "1.prems"(1) and l = "1.prems"(2) and tail = "1.prems"(3)
  show ?case
  proof (cases "depth s < maxDepth this")
    case False
    with tail show ?thesis by (simp add: traceLoop_unfold_exit)
  next
    case True
    let ?s0 = "s\<lparr>depth := depth s + 1\<rparr>"
    show ?thesis
    proof (cases "findParentNode ws (nodes s ! currentNode s)")
      case None
      have "sentinelTail (nodes (markSource ?s0))"
      proof (rule sentinelTail_cong[of _ "nodes s"])
        show "length (nodes (markSource ?s0)) = length (nodes s)"
          by (simp add: markSource_nodes)
        show "\<forall>i<length (nodes s). dataOf (nodes (markSource ?s0) ! i) = dataOf (nodes s ! i)"
          by (simp add: markSource_nodes)
        show "sentinelTail (nodes s)" by (rule tail)
      qed
      then show ?thesis by (simp add: traceLoop_unfold_break[OF True None])
    next
      case (Some p)
      have l0: "linked ?s0" using l by (rule linked_depth)
      have l1: "linked (advance ?s0 p)"
        using l0 findParentNode_parent[OF Some] by (rule linked_advance)
      have imp: "PropNode.propName (nodes ?s0 ! currentNode ?s0) = spreadSentinel
              \<longrightarrow> PropNode.propName p = spreadSentinel"
        using findParentNode_sentinel[OF wf _ Some] by simp
      have t0: "sentinelTail (nodes ?s0)" using tail by simp
      have "sentinelTail (nodes (advance ?s0 p))"
        using l0 t0 imp by (rule sentinelTail_advance)
      from "1.IH"[OF True Some wf l1 this] show ?thesis
        by (simp add: traceLoop_unfold_advance[OF True Some])
    qed
  qed
qed

lemma traceLoop_sticky:
  "ambiguousSoFar s \<Longrightarrow> ambiguousSoFar (traceLoop this ws s)"
proof (induction this ws s rule: traceLoop.induct)
  case (1 this ws s)
  show ?case
  proof (cases "depth s < maxDepth this")
    case False
    with "1.prems" show ?thesis by (simp add: traceLoop_unfold_exit)
  next
    case True
    show ?thesis
    proof (cases "findParentNode ws (nodes s ! currentNode s)")
      case None
      with True "1.prems" show ?thesis by (simp add: traceLoop_unfold_break)
    next
      case (Some p)
      from "1.IH"[OF True Some] "1.prems" show ?thesis
        by (simp add: traceLoop_unfold_advance[OF True Some])
    qed
  qed
qed

lemma analyzeLocation_value:
  assumes "analyzeLocationForPropUsage ws loc node = Some p"
  shows "\<exists>sourceFile u. project ws (fsPath loc) = Some sourceFile \<and>
           findPropUsageAtLocation sourceFile (componentName node) (PropNode.propName node)
             (startLine0 loc + 1) = Some u \<and>
           (PropNode.propName p = spreadSentinel \<longleftrightarrow> value u = Some spreadSentinel)"
  using assms
  by (auto simp: analyzeLocationForPropUsage_def Let_def extractPropName_sentinel
           split: option.splits sum.splits)






section \<open>Properties\<close>

text \<open>
  C1: every returned chain is non-empty and its first node has type SOURCE; in a chain of
  more than one node the last node has type DEFINITION and every interior node has type
  USAGE. In a chain of one node the sole node is both ends at once: it is the first node,
  of type SOURCE (the one \<^verbatim>\<open>type\<close> field reads SOURCE), and it is the node created for
  the requested component and prop, which in longer chains is the DEFINITION end.
\<close>

theorem chain_classification:
  assumes "buildPropChain this ws fp cn pn = Inr (t, h)"
  shows "chain t \<noteq> [] \<and> type (h ! (chain t ! 0)) = SOURCE \<and>
         (1 < length (chain t) \<longrightarrow>
            type (h ! (chain t ! (length (chain t) - 1))) = DEFINITION \<and>
            (\<forall>i. 0 < i \<and> i < length (chain t) - 1 \<longrightarrow> type (h ! (chain t ! i)) = USAGE)) \<and>
         (length (chain t) = 1 \<longrightarrow>
            type (h ! (chain t ! 0)) = SOURCE \<and> type (h ! (chain t ! 0)) \<noteq> DEFINITION \<and>
            componentName (h ! (chain t ! 0)) = cn \<and> filePath (h ! (chain t ! 0)) = fp \<and>
            PropNode.propName (h ! (chain t ! 0)) = pn)"
proof -
  let ?s = "traceLoop this ws (initialState (requestedNode ws fp cn pn))"
  note f = trace_facts[OF assms]
  have d: "distinct (chain t)" and v: "\<forall>a \<in> set (chain t). a < length (nodes ?s)"
    and ne: "chain t \<noteq> []"
    using f(2) linked_chain[OF f(1)] by simp_all
  have first: "type (h ! (chain t ! 0)) = SOURCE"
    unfolding f(3) using d v ne by (rule markChain_first)
  have last: "type (h ! (chain t ! (length (chain t) - 1))) = DEFINITION" if "1 < length (chain t)"
    unfolding f(3) using d v that by (rule markChain_last)
  have mid: "type (h ! (chain t ! i)) = USAGE" if "0 < i \<and> i < length (chain t) - 1" for i
    unfolding f(3) using v that by (intro markChain_interior) simp_all
  have single: "componentName (h ! (chain t ! 0)) = cn \<and> filePath (h ! (chain t ! 0)) = fp \<and>
      PropNode.propName (h ! (chain t ! 0)) = pn" if "length (chain t) = 1"
  proof -
    from that f(4) have n: "length (nodes ?s) = 1" by simp
    then have "chain t ! 0 = 0" using f(6)[of 0] by simp
    moreover have "dataOf (h ! 0) = dataOf (requestedNode ws fp cn pn)"
      using f(7)[of 0] f(8) n by simp
    ultimately show ?thesis by (simp add: dataOf_def requestedNode_def)
  qed
  from ne first last mid single show ?thesis by simp
qed

text \<open>The classification on a chain of three nodes and on a chain of one.\<close>

theorem chain_classification_witness:
  "buildPropChain newGraphBuilder scenarioC ''/src/Child.tsx'' ''Child'' ''label''
     = Inr (scenarioCTrace, scenarioCStore) \<and>
   chain scenarioCTrace = [2, 1, 0] \<and>
   type (scenarioCStore ! 2) = SOURCE \<and> type (scenarioCStore ! 1) = USAGE \<and>
   type (scenarioCStore ! 0) = DEFINITION \<and>
   buildPropChain newGraphBuilder scenarioD ''/src/Orphan.tsx'' ''Orphan'' ''title''
     = Inr (scenarioDTrace, scenarioDStore) \<and>
   chain scenarioDTrace = [0] \<and>
   type (scenarioDStore ! 0) = SOURCE \<and> componentName (scenarioDStore ! 0) = ''Orphan''"
proof -
  note c = chain_classification[OF scenarioC_result]
  note d = chain_classification[OF scenarioD_result]
  have lc: "chain scenarioCTrace = [2, 1, 0]" by (simp add: scenarioCTrace_def)
  have ld: "chain scenarioDTrace = [0]" by (simp add: scenarioDTrace_def)
  from c have c0: "type (scenarioCStore ! (chain scenarioCTrace ! 0)) = SOURCE" by blast
  from c lc have c2: "type (scenarioCStore ! (chain scenarioCTrace ! (length (chain scenarioCTrace) - 1))) = DEFINITION"
    by simp
  from c lc have "\<forall>i. 0 < i \<and> i < length (chain scenarioCTrace) - 1 \<longrightarrow>
      type (scenarioCStore ! (chain scenarioCTrace ! i)) = USAGE"
    by simp
  then have "0 < (1::nat) \<and> 1 < length (chain scenarioCTrace) - 1 \<longrightarrow>
      type (scenarioCStore ! (chain scenarioCTrace ! 1)) = USAGE"
    by (rule spec)
  with lc have c1: "type (scenarioCStore ! (chain scenarioCTrace ! 1)) = USAGE" by simp
  from d ld have d0: "type (scenarioDStore ! (chain scenarioDTrace ! 0)) = SOURCE \<and>
      componentName (scenarioDStore ! (chain scenarioDTrace ! 0)) = ''Orphan''"
    by simp
  from c0 c1 c2 d0 lc ld scenarioC_result scenarioD_result show ?thesis by simp
qed

text \<open>
  C2 at the boundary: the relay reaches its terminal source with the twentieth lookup,
  which finds no parent, and the trace of twenty nodes is returned with
  \<^verbatim>\<open>isComplete = false\<close>; with a bound of 21 the same chain is complete.
\<close>

theorem terminated_trace_flagged_incomplete:
  "(case buildPropChain newGraphBuilder relayWorkspace ''/src/Pong.tsx'' ''Pong'' ''p0'' of
      Inl e \<Rightarrow> False
    | Inr (t, h) \<Rightarrow>
        length (chain t) = 20 \<and>
        findParentNode relayWorkspace (h ! (chain t ! 0)) = None \<and>
        isComplete t = False) \<and>
   (case buildPropChain \<lparr>maxDepth = 21\<rparr> relayWorkspace ''/src/Pong.tsx'' ''Pong'' ''p0'' of
      Inl e \<Rightarrow> False
    | Inr (t, h) \<Rightarrow>
        length (chain t) = 20 \<and>
        findParentNode relayWorkspace (h ! (chain t ! 0)) = None \<and>
        isComplete t = True)"
  by code_simp

text \<open>
  C3 (as the code has it): in Scenario A the chain has exactly two nodes; the first has
  component \<^verbatim>\<open>Parent\<close>, prop \<^verbatim>\<open>"hi"\<close> (the literal text) and type SOURCE, the second
  component \<^verbatim>\<open>Child\<close>, prop \<^verbatim>\<open>label\<close> and type DEFINITION; the trace is complete and
  not ambiguous.
\<close>

theorem scenarioA_trace:
  \<open>buildPropChain newGraphBuilder scenarioA ''/src/Child.tsx'' ''Child'' ''label''
     = Inr (scenarioATrace, scenarioAStore) \<and>
   length (chain scenarioATrace) = 2 \<and>
   componentName (scenarioAStore ! (chain scenarioATrace ! 0)) = ''Parent'' \<and>
   PropNode.propName (scenarioAStore ! (chain scenarioATrace ! 0)) = ''"hi"'' \<and>
   type (scenarioAStore ! (chain scenarioATrace ! 0)) = SOURCE \<and>
   componentName (scenarioAStore ! (chain scenarioATrace ! 1)) = ''Child'' \<and>
   PropNode.propName (scenarioAStore ! (chain scenarioATrace ! 1)) = ''label'' \<and>
   type (scenarioAStore ! (chain scenarioATrace ! 1)) = DEFINITION \<and>
   isComplete scenarioATrace = True \<and> ambiguous scenarioATrace = False\<close>
  using scenarioA_result by (simp add: scenarioATrace_def scenarioAStore_def)

text \<open>
  C3 as stated fails on the prop name of the SOURCE hop: the hop records the text of the
  value passed, here the string literal with its quotes, not the attribute name.
\<close>

theorem scenarioA_source_prop_counterexample:
  \<open>buildPropChain newGraphBuilder scenarioA ''/src/Child.tsx'' ''Child'' ''label''
     = Inr (scenarioATrace, scenarioAStore) \<and>
   PropNode.propName (scenarioAStore ! (chain scenarioATrace ! 0)) = ''"hi"'' \<and>
   PropNode.propName (scenarioAStore ! (chain scenarioATrace ! 0)) \<noteq> ''label''\<close>
  using scenarioA_result by (simp add: scenarioATrace_def scenarioAStore_def)

text \<open>
  C4: the returned \<^verbatim>\<open>ambiguous\<close> flag is true exactly when some hop (a node of the
  chain other than the requested one) recorded the spread sentinel; a hop records the
  sentinel exactly when the value resolved for it was the sentinel; the flag is never
  cleared once set; and after a hop that resolved to the sentinel the loop goes on from
  that hop's node, which is pushed onto the chain and made the current node.
\<close>

theorem ambiguous_iff_spread_hop:
  assumes "buildPropChain this ws fp cn pn = Inr (t, h)"
  shows "(ambiguous t \<longleftrightarrow>
            (\<exists>i. i + 1 < length (chain t) \<and>
                 PropNode.propName (h ! (chain t ! i)) = spreadSentinel)) \<and>
         (\<forall>loc node p. analyzeLocationForPropUsage ws loc node = Some p \<longrightarrow>
            (\<exists>sourceFile u. project ws (fsPath loc) = Some sourceFile \<and>
               findPropUsageAtLocation sourceFile (componentName node) (PropNode.propName node)
                 (startLine0 loc + 1) = Some u \<and>
               (PropNode.propName p = spreadSentinel \<longleftrightarrow> value u = Some spreadSentinel))) \<and>
         (\<forall>s. ambiguousSoFar s \<longrightarrow> ambiguousSoFar (traceLoop this ws s)) \<and>
         (\<forall>s p. depth s < maxDepth this \<and>
                findParentNode ws (nodes s ! currentNode s) = Some p \<and>
                PropNode.propName p = spreadSentinel \<longrightarrow>
            traceLoop this ws s = traceLoop this ws (advance (s\<lparr>depth := depth s + 1\<rparr>) p) \<and>
            ambiguousSoFar (advance (s\<lparr>depth := depth s + 1\<rparr>) p) \<and>
            chainSoFar (advance (s\<lparr>depth := depth s + 1\<rparr>) p) = chainSoFar s @ [length (nodes s)] \<and>
            currentNode (advance (s\<lparr>depth := depth s + 1\<rparr>) p) = length (nodes s))"
proof -
  let ?i = "initialState (requestedNode ws fp cn pn)"
  let ?s = "traceLoop this ws ?i"
  let ?n = "length (nodes ?s)"
  note f = trace_facts[OF assms]
  have amb: "ambiguous t = (\<exists>a. 1 \<le> a \<and> a < ?n \<and> PropNode.propName (nodes ?s ! a) = spreadSentinel)"
    using traceLoop_ambiguous[of ?i this ws] f(10)
    by (simp add: linked_initialState requestedNode_def)
  have pn: "PropNode.propName (h ! a) = PropNode.propName (nodes ?s ! a)" if "a < ?n" for a
    using f(7)[OF that] by (simp add: dataOf_def)
  have "(\<exists>a. 1 \<le> a \<and> a < ?n \<and> PropNode.propName (nodes ?s ! a) = spreadSentinel)
        = (\<exists>i. i + 1 < length (chain t) \<and> PropNode.propName (h ! (chain t ! i)) = spreadSentinel)"
    (is "?L = ?R")
  proof
    assume ?L
    then obtain a where a: "1 \<le> a" "a < ?n" "PropNode.propName (nodes ?s ! a) = spreadSentinel"
      by blast
    let ?k = "?n - 1 - a"
    have k: "?k < ?n" "?k + 1 < ?n" "?n - 1 - ?k = a" using a by simp_all
    from f(6)[OF k(1)] k(3) have "chain t ! ?k = a" by simp
    with a pn[OF a(2)] k(2) f(4) show ?R by (intro exI[of _ ?k]) simp
  next
    assume ?R
    then obtain i where i: "i + 1 < length (chain t)"
      "PropNode.propName (h ! (chain t ! i)) = spreadSentinel" by blast
    let ?a = "?n - 1 - i"
    have il: "i < ?n" using i(1) f(4) by simp
    have a: "1 \<le> ?a" "?a < ?n" using i(1) f(4) by simp_all
    from f(6)[OF il] i(2) pn[OF a(2)] have "PropNode.propName (nodes ?s ! ?a) = spreadSentinel"
      by simp
    with a show ?L by blast
  qed
  with amb have one: "ambiguous t \<longleftrightarrow>
      (\<exists>i. i + 1 < length (chain t) \<and> PropNode.propName (h ! (chain t ! i)) = spreadSentinel)"
    by simp
  have two: "\<forall>loc node p. analyzeLocationForPropUsage ws loc node = Some p \<longrightarrow>
            (\<exists>sourceFile u. project ws (fsPath loc) = Some sourceFile \<and>
               findPropUsageAtLocation sourceFile (componentName node) (PropNode.propName node)
                 (startLine0 loc + 1) = Some u \<and>
               (PropNode.propName p = spreadSentinel \<longleftrightarrow> value u = Some spreadSentinel))"
    using analyzeLocation_value by blast
  have three: "\<forall>s. ambiguousSoFar s \<longrightarrow> ambiguousSoFar (traceLoop this ws s)"
    using traceLoop_sticky by blast
  have four: "\<forall>s p. depth s < maxDepth this \<and>
                findParentNode ws (nodes s ! currentNode s) = Some p \<and>
                PropNode.propName p = spreadSentinel \<longrightarrow>
            traceLoop this ws s = traceLoop this ws (advance (s\<lparr>depth := depth s + 1\<rparr>) p) \<and>
            ambiguousSoFar (advance (s\<lparr>depth := depth s + 1\<rparr>) p) \<and>
            chainSoFar (advance (s\<lparr>depth := depth s + 1\<rparr>) p) = chainSoFar s @ [length (nodes s)] \<and>
            currentNode (advance (s\<lparr>depth := depth s + 1\<rparr>) p) = length (nodes s)"
  proof (intro allI impI)
    fix s :: TraceState and p
    assume a: "depth s < maxDepth this \<and>
                findParentNode ws (nodes s ! currentNode s) = Some p \<and>
                PropNode.propName p = spreadSentinel"
    then have "traceLoop this ws s = traceLoop this ws (advance (s\<lparr>depth := depth s + 1\<rparr>) p)"
      by (intro traceLoop_unfold_advance) simp_all
    moreover from a have "ambiguousSoFar (advance (s\<lparr>depth := depth s + 1\<rparr>) p)"
      by simp
    moreover have "chainSoFar (advance (s\<lparr>depth := depth s + 1\<rparr>) p) = chainSoFar s @ [length (nodes s)]"
      by simp
    moreover have "currentNode (advance (s\<lparr>depth := depth s + 1\<rparr>) p) = length (nodes s)"
      by simp
    ultimately show "traceLoop this ws s = traceLoop this ws (advance (s\<lparr>depth := depth s + 1\<rparr>) p) \<and>
            ambiguousSoFar (advance (s\<lparr>depth := depth s + 1\<rparr>) p) \<and>
            chainSoFar (advance (s\<lparr>depth := depth s + 1\<rparr>) p) = chainSoFar s @ [length (nodes s)] \<and>
            currentNode (advance (s\<lparr>depth := depth s + 1\<rparr>) p) = length (nodes s)"
      by (intro conjI)
  qed
  show ?thesis
    by (intro conjI) (rule one, rule two, rule three, rule four)
qed

text \<open>The spread scenario is ambiguous, and its hops recorded the sentinel.\<close>

theorem ambiguous_iff_spread_hop_witness:
  "buildPropChain newGraphBuilder scenarioC ''/src/Child.tsx'' ''Child'' ''label''
     = Inr (scenarioCTrace, scenarioCStore) \<and>
   ambiguous scenarioCTrace \<and>
   (\<exists>i. i + 1 < length (chain scenarioCTrace) \<and>
        PropNode.propName (scenarioCStore ! (chain scenarioCTrace ! i)) = spreadSentinel)"
proof -
  have amb: "ambiguous scenarioCTrace" by (simp add: scenarioCTrace_def)
  from ambiguous_iff_spread_hop[OF scenarioC_result] amb
  have "\<exists>i. i + 1 < length (chain scenarioCTrace) \<and>
        PropNode.propName (scenarioCStore ! (chain scenarioCTrace ! i)) = spreadSentinel"
    by blast
  with scenarioC_result amb show ?thesis by blast
qed

text \<open>
  C5: a returned chain has at least one and at most \<^verbatim>\<open>maxDepth + 1\<close> nodes; when the
  node at the source end still has a usage that resolves, as on a cycle of usages, the
  chain has exactly \<^verbatim>\<open>maxDepth + 1\<close> nodes and the trace is incomplete.
\<close>

theorem chain_length_bounds:
  assumes "buildPropChain this ws fp cn pn = Inr (t, h)"
  shows "1 \<le> length (chain t) \<and> length (chain t) \<le> maxDepth this + 1 \<and>
         (findParentNode ws (h ! (chain t ! 0)) \<noteq> None \<longrightarrow>
            length (chain t) = maxDepth this + 1 \<and> \<not> isComplete t)"
proof -
  let ?i = "initialState (requestedNode ws fp cn pn)"
  let ?s = "traceLoop this ws ?i"
  note f = trace_facts[OF assms]
  have len: "length (chain t) = length (chainSoFar ?s)" using f(2) by simp
  have bounds: "1 \<le> length (chain t) \<and> length (chain t) \<le> maxDepth this + 1"
    using traceLoop_length[of ?i this ws] len by simp
  have cut: "length (chain t) = maxDepth this + 1 \<and> \<not> isComplete t"
    if p: "findParentNode ws (h ! (chain t ! 0)) \<noteq> None"
  proof -
    have pos: "0 < length (nodes ?s)" using f(1) by (simp add: linked_def)
    have cur: "currentNode ?s = length (nodes ?s) - 1" using f(1) by (simp add: linked_def)
    have "chain t ! 0 = currentNode ?s" using f(6)[OF pos] cur by simp
    moreover have "dataOf (h ! currentNode ?s) = dataOf (nodes ?s ! currentNode ?s)"
      using f(7)[of "currentNode ?s"] linked_current[OF f(1)] by simp
    ultimately have "findParentNode ws (nodes ?s ! currentNode ?s) \<noteq> None"
      using p findParentNode_cong[of "h ! currentNode ?s" "nodes ?s ! currentNode ?s" ws] by simp
    from traceLoop_cut[OF _ _ this] have
      "length (chainSoFar ?s) = length (chainSoFar ?i) + (maxDepth this - depth ?i) \<and>
       depth ?s = maxDepth this"
      by (simp add: linked_initialState requestedNode_def)
    then show ?thesis using len f(9) by simp
  qed
  from bounds cut show ?thesis by blast
qed

text \<open>Scenario E with the default bound of 20: a chain of 21 nodes.\<close>

theorem chain_length_bounds_witness:
  "(case buildPropChain newGraphBuilder scenarioE ''/src/B.tsx'' ''B'' ''x'' of
      Inl e \<Rightarrow> False
    | Inr (t, h) \<Rightarrow>
        findParentNode scenarioE (h ! (chain t ! 0)) \<noteq> None \<and>
        1 \<le> length (chain t) \<and> length (chain t) = 21 \<and> \<not> isComplete t)"
proof (cases "buildPropChain newGraphBuilder scenarioE ''/src/B.tsx'' ''B'' ''x''")
  case (Inl e)
  with scenarioE_cut show ?thesis by simp
next
  case (Inr r)
  obtain t h where r: "r = (t, h)" by (cases r)
  with Inr have e: "buildPropChain newGraphBuilder scenarioE ''/src/B.tsx'' ''B'' ''x'' = Inr (t, h)"
    by simp
  with scenarioE_cut have p: "findParentNode scenarioE (h ! (chain t ! 0)) \<noteq> None" by simp
  from chain_length_bounds[OF e] p
  have "1 \<le> length (chain t) \<and> length (chain t) = 21 \<and> \<not> isComplete t"
    by (simp add: newGraphBuilder_def)
  with e p show ?thesis by simp
qed

text \<open>
  C6 on a self-closing tag: \<^verbatim>\<open>findPropUsage\<close> scans the paired opening elements only
  and finds nothing in the usage test of the repository, where
  \<^verbatim>\<open>findPropUsageAtLocation\<close> finds the literal.
\<close>

theorem findPropUsage_misses_self_closing:
  \<open>findPropUsage buttonUsageFile ''Button'' ''label'' = None \<and>
   findPropUsageAtLocation buttonUsageFile ''Button'' ''label'' 6
     = Some \<lparr>PropUsage.line = 6, value = Some ''"Click me"''\<rparr>\<close>
  by code_simp

text \<open>
  C7 on a call to another function: the callee is compared by suffix, so a variable
  initialised by \<^verbatim>\<open>disconnect(...)\<close> is returned as a component.
\<close>

theorem suffix_wrapper_recognized:
  "extractComponentFromVariable panelFile panelDeclaration ''/src/Panel.tsx''
     = Some \<lparr>name = ''Panel'', ComponentInfo.filePath = ''/src/Panel.tsx'', props = [],
             line = 1\<rparr> \<and>
   analyzeFile panelWorkspace ''/src/Panel.tsx''
     = Inr [\<lparr>name = ''Panel'', ComponentInfo.filePath = ''/src/Panel.tsx'', props = [],
             line = 1\<rparr>] \<and>
   ''disconnect'' \<notin> set wrapperFunctions"
  by code_simp

text \<open>
  C8: in a workspace where no JSX attribute is named \<^verbatim>\<open>{...spread}\<close>, once a node of
  the chain has recorded the sentinel, every node nearer the source end (every later hop
  of the traversal) has recorded it too.
\<close>

theorem spread_hops_stay_spread:
  assumes "noSentinelAttribute ws" and "buildPropChain this ws fp cn pn = Inr (t, h)"
    and "i \<le> j" and "j < length (chain t)"
    and "PropNode.propName (h ! (chain t ! j)) = spreadSentinel"
  shows "PropNode.propName (h ! (chain t ! i)) = spreadSentinel"
proof -
  let ?i = "initialState (requestedNode ws fp cn pn)"
  let ?s = "traceLoop this ws ?i"
  let ?n = "length (nodes ?s)"
  note f = trace_facts[OF assms(2)]
  have "sentinelTail (nodes ?i)" by (simp add: sentinelTail_def)
  moreover have "linked ?i" by (rule linked_initialState) (simp add: requestedNode_def)
  ultimately have tail: "sentinelTail (nodes ?s)"
    using assms(1) by (intro traceLoop_sentinelTail)
  from assms(3,4) f(4) have j: "j < ?n" and i: "i < ?n" by simp_all
  have pn: "PropNode.propName (h ! a) = PropNode.propName (nodes ?s ! a)" if "a < ?n" for a
    using f(7)[OF that] by (simp add: dataOf_def)
  have aj: "?n - 1 - j < ?n" and ai: "?n - 1 - i < ?n" using i j by simp_all
  from assms(5) have "PropNode.propName (nodes ?s ! (?n - 1 - j)) = spreadSentinel"
    using f(6)[OF j] pn[OF aj] by simp
  moreover have "?n - 1 - j \<le> ?n - 1 - i" using assms(3) by simp
  ultimately have "PropNode.propName (nodes ?s ! (?n - 1 - i)) = spreadSentinel"
    using tail ai unfolding sentinelTail_def by blast
  then show ?thesis using f(6)[OF i] pn[OF ai] by simp
qed

text \<open>Two successive spread hops in the spread scenario.\<close>

theorem spread_hops_stay_spread_witness:
  "noSentinelAttribute scenarioC \<and>
   buildPropChain newGraphBuilder scenarioC ''/src/Child.tsx'' ''Child'' ''label''
     = Inr (scenarioCTrace, scenarioCStore) \<and>
   (0::nat) \<le> 1 \<and> 1 < length (chain scenarioCTrace) \<and>
   PropNode.propName (scenarioCStore ! (chain scenarioCTrace ! 1)) = spreadSentinel \<and>
   PropNode.propName (scenarioCStore ! (chain scenarioCTrace ! 0)) = spreadSentinel"
proof -
  have a: "(0::nat) \<le> 1" by simp
  have b: "1 < length (chain scenarioCTrace)" by (simp add: scenarioCTrace_def)
  have c: "PropNode.propName (scenarioCStore ! (chain scenarioCTrace ! 1)) = spreadSentinel"
    by (simp add: scenarioCTrace_def scenarioCStore_def spreadSentinel_def)
  from spread_hops_stay_spread[OF scenarioC_noSentinel scenarioC_result a b c]
  show ?thesis using scenarioC_noSentinel scenarioC_result b c by simp
qed

text \<open>
  C9: in every chain returned by \<^verbatim>\<open>buildPropChain\<close> the nodes are distinct objects of
  the store linked through \<^verbatim>\<open>parent\<close>: the first node has no parent, and the parent of
  every later node is exactly the node just before it in the chain.
\<close>

theorem chain_parent_links:
  assumes "buildPropChain this ws fp cn pn = Inr (t, h)"
  shows "distinct (chain t) \<and> (\<forall>a \<in> set (chain t). a < length h) \<and>
         parent (h ! (chain t ! 0)) = None \<and>
         (\<forall>i. 1 \<le> i \<and> i < length (chain t) \<longrightarrow>
              parent (h ! (chain t ! i)) = Some (chain t ! (i - 1)))"
proof -
  let ?s = "traceLoop this ws (initialState (requestedNode ws fp cn pn))"
  let ?n = "length (nodes ?s)"
  have fin: "(t, h) = finishTrace this pn ?s" using assms by (rule buildPropChain_Inr)
  have l: "linked ?s" by (rule linked_final)
  have c: "chain t = rev (chainSoFar ?s)" and h: "h = markChain (nodes ?s) (rev (chainSoFar ?s))"
    using finishTrace_parts[OF fin] by simp_all
  have pos: "0 < ?n" using l by (simp add: linked_def)
  have len: "length (chain t) = ?n" using c linked_chain(4)[OF l] by simp
  have nth: "chain t ! i = ?n - 1 - i" if "i < ?n" for i
    using c linked_chain(5)[OF l that] by simp
  have par: "parent (h ! a) = parent (nodes ?s ! a)" if "a < ?n" for a
    using h markChain_data[OF that] by simp
  have first: "parent (h ! (chain t ! 0)) = None"
    using nth[OF pos] par[of "?n - 1"] pos l by (simp add: linked_def)
  have rest: "parent (h ! (chain t ! i)) = Some (chain t ! (i - 1))"
    if "1 \<le> i \<and> i < length (chain t)" for i
  proof -
    from that len have i: "1 \<le> i" "i < ?n" by simp_all
    then have a: "Suc (?n - 1 - i) < ?n" by arith
    from l a have "parent (nodes ?s ! (?n - 1 - i)) = Some (Suc (?n - 1 - i))"
      by (simp add: linked_def)
    moreover have "Suc (?n - 1 - i) = ?n - 1 - (i - 1)" using i by arith
    moreover have "i - 1 < ?n" using i by arith
    ultimately show ?thesis
      using nth[OF i(2)] nth[of "i - 1"] par[of "?n - 1 - i"] a by simp
  qed
  have "distinct (chain t)" using c linked_chain(1)[OF l] by simp
  moreover have "\<forall>a \<in> set (chain t). a < length h"
    using c h linked_chain(2)[OF l] by simp
  ultimately show ?thesis using first rest by blast
qed

text \<open>The links of Scenario A.\<close>

theorem chain_parent_links_witness:
  "buildPropChain newGraphBuilder scenarioA ''/src/Child.tsx'' ''Child'' ''label''
     = Inr (scenarioATrace, scenarioAStore) \<and>
   chain scenarioATrace = [1, 0] \<and>
   parent (scenarioAStore ! 1) = None \<and> parent (scenarioAStore ! 0) = Some 1"
proof -
  have e: "buildPropChain newGraphBuilder scenarioA ''/src/Child.tsx'' ''Child'' ''label''
             = Inr (scenarioATrace, scenarioAStore)"
    by (rule scenarioA_result)
  note w = chain_parent_links[OF e]
  from w have a: "parent (scenarioAStore ! (chain scenarioATrace ! 0)) = None"
    by blast
  from w have "1 \<le> (1::nat) \<and> 1 < length (chain scenarioATrace) \<longrightarrow>
      parent (scenarioAStore ! (chain scenarioATrace ! 1)) = Some (chain scenarioATrace ! (1 - 1))"
    by blast
  then have b: "parent (scenarioAStore ! 0) = Some 1"
    by (simp add: scenarioATrace_def)
  from a b e show ?thesis by (simp add: scenarioATrace_def)
qed



end
